(* ===== verification/Grim_Prelude.thy ===== *)
theory Grim_Prelude
  imports Main "HOL-Library.Word" "HOL-Library.AList" "HOL-Library.Monad_Syntax"
begin

text \<open>
  Shared vocabulary of the development: Go byte slices and strings, machine integers in
  big-endian layout, in-place buffer writes with their panics, Go maps, UTF-8 iteration over
  strings, time, and the generic interfaces the components instantiate (codecs, systems with
  an invariant, systems that refine a specification, and labelled step relations).
\<close>

unbundle bit_operations_syntax

named_theorems codec_simps \<open>length and round-trip rules of the wire codecs\<close>
named_theorems gomap_simps \<open>lookup laws of Go maps\<close>

section \<open>Bytes and strings\<close>

type_synonym byte = "8 word"

text \<open>
  A Go string is a read-only byte sequence; it is modelled by \<^typ>\<open>string\<close>, whose characters
  are bytes. The conversions between strings and byte slices copy.
\<close>

definition bytes_of :: "string \<Rightarrow> byte list" where
  "bytes_of s = map of_char s"

definition string_of :: "byte list \<Rightarrow> string" where
  "string_of bs = map (\<lambda>b. char_of (unat b)) bs"

lemma length_bytes_of [simp]: "length (bytes_of s) = length s"
  by (simp add: bytes_of_def)

lemma length_string_of [simp]: "length (string_of bs) = length bs"
  by (simp add: string_of_def)

lemma unat_of_char [simp]: "unat (of_char c :: byte) = of_char c"
proof -
  have "(of_char c :: byte) = word_of_nat (of_char c)"
    by (simp add: of_nat_of_char)
  moreover have "of_char c < (256::nat)"
    by simp
  ultimately show ?thesis
    by (simp add: unat_of_nat)
qed

lemma string_of_bytes_of [simp]: "string_of (bytes_of s) = s"
  by (simp add: string_of_def bytes_of_def comp_def)

lemma of_char_char_of_byte [simp]: "(of_char (char_of (unat (b::byte))) :: byte) = b"
proof -
  have "unat b < 256"
    using unsigned_less [of b] by simp
  then have "(of_char (char_of (unat b)) :: nat) = unat b"
    by simp
  then have "unat (of_char (char_of (unat b)) :: byte) = unat b"
    by simp
  then show ?thesis
    by (simp only: word_unat_eq_iff)
qed

lemma bytes_of_string_of [simp]: "bytes_of (string_of bs) = bs"
  by (simp add: string_of_def bytes_of_def comp_def)

lemma bytes_of_Nil [simp]: "bytes_of [] = []"
  by (simp add: bytes_of_def)

lemma bytes_of_append [simp]: "bytes_of (s @ t) = bytes_of s @ bytes_of t"
  by (simp add: bytes_of_def)

lemma bytes_of_inject [simp]: "bytes_of s = bytes_of t \<longleftrightarrow> s = t"
  by (metis string_of_bytes_of)

lemma take_bytes_of: "take n (bytes_of s) = bytes_of (take n s)"
  by (simp add: bytes_of_def take_map)

lemma drop_bytes_of: "drop n (bytes_of s) = bytes_of (drop n s)"
  by (simp add: bytes_of_def drop_map)

section \<open>Big-endian integers (encoding/binary)\<close>

definition be16 :: "16 word \<Rightarrow> byte list" where
  "be16 v = [ucast (drop_bit 8 v), ucast v]"

definition be32 :: "32 word \<Rightarrow> byte list" where
  "be32 v = [ucast (drop_bit 24 v), ucast (drop_bit 16 v), ucast (drop_bit 8 v), ucast v]"

definition be64 :: "64 word \<Rightarrow> byte list" where
  "be64 v = [ucast (drop_bit 56 v), ucast (drop_bit 48 v), ucast (drop_bit 40 v), ucast (drop_bit 32 v),
             ucast (drop_bit 24 v), ucast (drop_bit 16 v), ucast (drop_bit 8 v), ucast v]"

text \<open>\<open>binary.BigEndian.Uint16\<close> and \<open>Uint32\<close> panic on a short slice: \<open>None\<close>.\<close>

fun u16_of :: "byte list \<Rightarrow> 16 word option" where
  "u16_of (a # b # _) = Some (push_bit 8 (ucast a) OR ucast b)"
| "u16_of _ = None"

fun u32_of :: "byte list \<Rightarrow> 32 word option" where
  "u32_of (a # b # c # d # _) =
     Some (push_bit 24 (ucast a) OR push_bit 16 (ucast b) OR push_bit 8 (ucast c) OR ucast d)"
| "u32_of _ = None"

lemma length_be [simp, codec_simps]:
  "length (be16 v) = 2" "length (be32 w) = 4" "length (be64 x) = 8"
  by (simp_all add: be16_def be32_def be64_def)

lemma u16_of_be16 [simp, codec_simps]: "u16_of (be16 v @ rest) = Some v"
proof -
  have "push_bit 8 (ucast (ucast (drop_bit 8 v) :: byte)) OR ucast (ucast v :: byte) = v"
    by (rule bit_word_eqI) (auto simp: bit_simps)
  then show ?thesis
    by (simp add: be16_def)
qed

lemma u32_of_be32 [simp, codec_simps]: "u32_of (be32 v @ rest) = Some v"
proof -
  have "push_bit 24 (ucast (ucast (drop_bit 24 v) :: byte)) OR
        push_bit 16 (ucast (ucast (drop_bit 16 v) :: byte)) OR
        push_bit 8 (ucast (ucast (drop_bit 8 v) :: byte)) OR ucast (ucast v :: byte) = v"
    (is "?l = v")
  proof (rule bit_word_eqI)
    fix n
    assume "n < LENGTH(32)"
    then consider "n < 8" | "8 \<le> n" "n < 16" | "16 \<le> n" "n < 24" | "24 \<le> n" "n < 32"
      by fastforce
    then show "bit ?l n = bit v n"
      by cases (auto simp: bit_simps)
  qed
  then show ?thesis
    by (simp add: be32_def)
qed

text \<open>Reading and then writing gives the bytes back: the layouts are exact.\<close>

lemma byte_bit_beyond [simp]: "8 \<le> n \<Longrightarrow> \<not> bit (b::byte) n"
  by (auto dest: bit_imp_le_length)

lemma be16_u16_of: "u16_of [a, b] = Some v \<Longrightarrow> be16 v = [a, b]"
  by (auto simp: be16_def bit_simps intro!: bit_word_eqI dest: bit_imp_le_length)

lemma be32_u32_of: "u32_of [a, b, c, d] = Some v \<Longrightarrow> be32 v = [a, b, c, d]"
  by (auto simp: be32_def bit_simps intro!: bit_word_eqI dest: bit_imp_le_length)

text \<open>The eight bytes determine the word: each byte holds eight of its bits.\<close>

lemma be64_nth_bit: "n < 64 \<Longrightarrow> bit (be64 v ! (7 - n div 8)) (n mod 8) = bit v n"
proof -
  assume "n < 64"
  then have "n div 8 < 8"
    by (simp add: less_mult_imp_div_less)
  then have "n div 8 \<in> {0, 1, 2, 3, 4, 5, 6, 7}"
    by auto
  then have "be64 v ! (7 - n div 8) = ucast (drop_bit (n div 8 * 8) v)"
    by (auto simp: be64_def)
  then show ?thesis
    by (simp add: bit_simps)
qed

lemma be64_inject [simp]: "be64 v = be64 w \<longleftrightarrow> v = w"
proof
  assume "be64 v = be64 w"
  then show "v = w"
    using be64_nth_bit [of _ v] be64_nth_bit [of _ w] by (intro bit_word_eqI) simp
qed simp

lemma u16_of_eq_None [simp]: "u16_of bs = None \<longleftrightarrow> length bs < 2"
  by (cases bs rule: u16_of.cases) auto

lemma u32_of_eq_None [simp]: "u32_of bs = None \<longleftrightarrow> length bs < 4"
  by (cases bs rule: u32_of.cases) auto

section \<open>Writing into a preallocated buffer\<close>

text \<open>
  The encoders allocate a zeroed buffer and fill it in place. A slice expression
  \<open>buf[off:]\<close> with \<open>off\<close> beyond the length panics, \<open>PutUint16\<close> and \<open>PutUint32\<close> panic on a
  short slice, and \<open>copy\<close> silently stops at the end of its destination. A panic is \<open>None\<close>.
\<close>

definition go_copy :: "byte list \<Rightarrow> nat \<Rightarrow> byte list \<Rightarrow> byte list option" where
  "go_copy buf off src =
     (if off \<le> length buf
      then Some (take off buf @ take (length buf - off) src @ drop (off + length src) buf)
      else None)"

definition go_put :: "byte list \<Rightarrow> nat \<Rightarrow> byte list \<Rightarrow> byte list option" where
  "go_put buf off src =
     (if off + length src \<le> length buf then go_copy buf off src else None)"

text \<open>One write and the advance of the offset past it.\<close>

definition go_write :: "byte list \<Rightarrow> nat \<Rightarrow> byte list \<Rightarrow> (byte list \<times> nat) option" where
  "go_write buf off src = do { buf \<leftarrow> go_put buf off src; Some (buf, off + length src) }"

text \<open>
  A writer \<^emph>\<open>fills\<close> a byte string when, at the boundary between the bytes already written and
  the zeroed rest, it appends exactly that byte string and moves the offset to its end. Writers
  compose, and a writer run on a fresh buffer of the right size produces exactly its bytes.
\<close>

definition fills :: "(byte list \<Rightarrow> nat \<Rightarrow> (byte list \<times> nat) option) \<Rightarrow> byte list \<Rightarrow> bool" where
  "fills w bs \<longleftrightarrow> (\<forall>pre k. w (pre @ replicate (length bs + k) 0) (length pre) =
     Some (pre @ bs @ replicate k 0, length pre + length bs))"

lemma fillsD:
  assumes "fills w bs"
  shows "w (pre @ replicate (length bs + k) 0) (length pre) =
    Some (pre @ bs @ replicate k 0, length pre + length bs)"
  using assms unfolding fills_def by blast

lemma fills_return [intro]: "fills (\<lambda>buf off. Some (buf, off)) []"
  by (simp add: fills_def)

lemma fills_bind [intro]:
  assumes "fills w1 bs1" "fills w2 bs2"
  shows "fills (\<lambda>buf off. w1 buf off \<bind> (\<lambda>(buf, off). w2 buf off)) (bs1 @ bs2)"
  unfolding fills_def
proof (intro allI)
  fix pre k
  have "w1 (pre @ replicate (length (bs1 @ bs2) + k) 0) (length pre) =
      Some ((pre @ bs1) @ replicate (length bs2 + k) 0, length (pre @ bs1))"
    using fillsD [OF assms(1), of pre "length bs2 + k"] by (simp add: add.assoc)
  moreover note fillsD [OF assms(2), of "pre @ bs1" k]
  ultimately show "w1 (pre @ replicate (length (bs1 @ bs2) + k) 0) (length pre) \<bind>
      (\<lambda>(buf, off). w2 buf off) =
      Some (pre @ (bs1 @ bs2) @ replicate k 0, length pre + length (bs1 @ bs2))"
    by simp
qed

lemma fills_write [intro]: "fills (\<lambda>buf off. go_write buf off src) src"
  by (simp add: fills_def go_write_def go_put_def go_copy_def)

lemma fills_copy [intro]:
  "fills (\<lambda>buf off. go_copy buf off src \<bind> (\<lambda>buf. Some (buf, off + length src))) src"
  by (simp add: fills_def go_copy_def)

lemma fills_fresh:
  "fills w bs \<Longrightarrow> w (replicate (length bs) 0) 0 = Some (bs, length bs)"
  using fillsD [of w bs "[]" 0] by simp

text \<open>Slicing \<open>xs[off:]\<close>.\<close>

definition slice_from :: "'a list \<Rightarrow> nat \<Rightarrow> 'a list option" where
  "slice_from xs off = (if off \<le> length xs then Some (drop off xs) else None)"

section \<open>Error returns\<close>

text \<open>
  A Go result \<open>(value, error)\<close> is a sum with the error on the left; \<open>bindE\<close> is the
  \<open>if err != nil { return err }\<close> that follows a call.
\<close>

fun bindE :: "'e + 'a \<Rightarrow> ('a \<Rightarrow> 'e + 'b) \<Rightarrow> 'e + 'b" where
  "bindE (Inl e) f = Inl e"
| "bindE (Inr x) f = f x"

lemma bindE_eq_Inr: "bindE m f = Inr y \<longleftrightarrow> (\<exists>x. m = Inr x \<and> f x = Inr y)"
  by (cases m) auto

lemma bindE_eq_Inl: "bindE m f = Inl e \<longleftrightarrow> m = Inl e \<or> (\<exists>x. m = Inr x \<and> f x = Inl e)"
  by (cases m) auto

lemma bindE_cong [fundef_cong]:
  "m = m' \<Longrightarrow> (\<And>x. m' = Inr x \<Longrightarrow> f x = g x) \<Longrightarrow> bindE m f = bindE m' g"
  by (cases m') auto

section \<open>Go maps\<close>

text \<open>
  A Go map is an association list with distinct keys. The order of the list stands for the
  iteration order, which Go leaves unspecified: a theorem about every list is a theorem about
  every order, and \<^const>\<open>map_of\<close> forgets it.
\<close>

type_synonym ('k, 'v) gomap = "('k \<times> 'v) list"

definition gomap :: "('k, 'v) gomap \<Rightarrow> bool" where
  "gomap m \<longleftrightarrow> distinct (map fst m)"

abbreviation gomap_get :: "('k, 'v) gomap \<Rightarrow> 'k \<Rightarrow> 'v option" where
  "gomap_get m k \<equiv> map_of m k"

definition gomap_set :: "('k, 'v) gomap \<Rightarrow> 'k \<Rightarrow> 'v \<Rightarrow> ('k, 'v) gomap" where
  "gomap_set m k v = AList.update k v m"

definition gomap_delete :: "('k, 'v) gomap \<Rightarrow> 'k \<Rightarrow> ('k, 'v) gomap" where
  "gomap_delete m k = AList.delete k m"

text \<open>A missing key reads as the zero value of the element type.\<close>

definition gomap_index :: "('k, 'v) gomap \<Rightarrow> 'v \<Rightarrow> 'k \<Rightarrow> 'v" where
  "gomap_index m zero k = (case gomap_get m k of None \<Rightarrow> zero | Some v \<Rightarrow> v)"

lemma gomap_Nil [simp]: "gomap []"
  by (simp add: gomap_def)

lemma gomap_gomap_set [simp]: "gomap m \<Longrightarrow> gomap (gomap_set m k v)"
  by (simp add: gomap_def gomap_set_def distinct_update)

lemma gomap_gomap_delete [simp]: "gomap m \<Longrightarrow> gomap (gomap_delete m k)"
  by (simp add: gomap_def gomap_delete_def distinct_delete)

lemma map_of_gomap_set [simp, gomap_simps]: "map_of (gomap_set m k v) = (map_of m)(k \<mapsto> v)"
  by (simp add: gomap_set_def update_conv')

lemma map_of_gomap_delete [simp, gomap_simps]: "map_of (gomap_delete m k) = (map_of m)(k := None)"
  by (simp add: gomap_delete_def delete_conv')

lemma keys_gomap_set: "fst ` set (gomap_set m k v) = insert k (fst ` set m)"
  by (metis dom_map_of_conv_image_fst dom_fun_upd map_of_gomap_set option.distinct(1))

lemma keys_gomap_delete: "fst ` set (gomap_delete m k) = fst ` set m - {k}"
  by (metis dom_map_of_conv_image_fst dom_fun_upd map_of_gomap_delete)

lemma gomap_set_fresh: "k \<notin> fst ` set m \<Longrightarrow> gomap_set m k v = m @ [(k, v)]"
  by (simp add: gomap_set_def update_nonempty) (induction m; auto)

lemma gomap_delete_filter: "gomap_delete m k = filter (\<lambda>kv. fst kv \<noteq> k) m"
  by (simp add: gomap_delete_def AList.delete_eq) (rule filter_cong; auto)

lemma gomap_in_set: "gomap m \<Longrightarrow> (k, v) \<in> set m \<longleftrightarrow> map_of m k = Some v"
  by (simp add: gomap_def)

section \<open>Iterating over the runes of a string\<close>

text \<open>
  \<open>for i, c := range s\<close> decodes UTF-8: a well-formed sequence yields its code point, any
  other byte yields U+FFFD and advances by one. \<open>decodeRune\<close> is the runtime's decoder with its
  accept ranges (no overlong forms, no surrogates, nothing above U+10FFFF).
\<close>

definition runeError :: nat where "runeError = 0xFFFD"

definition cont :: "nat \<Rightarrow> nat \<Rightarrow> nat \<Rightarrow> bool" where
  "cont lo hi b \<longleftrightarrow> lo \<le> b \<and> b \<le> hi"

definition decodeRune :: "nat \<Rightarrow> nat list \<Rightarrow> nat \<times> nat" where
  "decodeRune c0 bs =
     (if c0 < 0x80 then (c0, 1)
      else if c0 < 0xC2 \<or> 0xF4 < c0 then (runeError, 1)
      else if c0 < 0xE0 then
        (case bs of
           b1 # _ \<Rightarrow> if cont 0x80 0xBF b1 then ((c0 - 0xC0) * 64 + (b1 - 0x80), 2) else (runeError, 1)
         | _ \<Rightarrow> (runeError, 1))
      else if c0 < 0xF0 then
        (case bs of
           b1 # b2 # _ \<Rightarrow>
             if cont (if c0 = 0xE0 then 0xA0 else 0x80) (if c0 = 0xED then 0x9F else 0xBF) b1 \<and>
                cont 0x80 0xBF b2
             then ((c0 - 0xE0) * 4096 + (b1 - 0x80) * 64 + (b2 - 0x80), 3) else (runeError, 1)
         | _ \<Rightarrow> (runeError, 1))
      else
        (case bs of
           b1 # b2 # b3 # _ \<Rightarrow>
             if cont (if c0 = 0xF0 then 0x90 else 0x80) (if c0 = 0xF4 then 0x8F else 0xBF) b1 \<and>
                cont 0x80 0xBF b2 \<and> cont 0x80 0xBF b3
             then ((c0 - 0xF0) * 262144 + (b1 - 0x80) * 4096 + (b2 - 0x80) * 64 + (b3 - 0x80), 4)
             else (runeError, 1)
         | _ \<Rightarrow> (runeError, 1)))"

lemma decodeRune_width: "1 \<le> snd (decodeRune c bs)"
  by (auto simp: decodeRune_def split: list.splits)

function runes_from :: "nat \<Rightarrow> nat list \<Rightarrow> (nat \<times> nat) list" where
  "runes_from i [] = []"
| "runes_from i (c # bs) =
     (let (r, w) = decodeRune c bs in (i, r) # runes_from (i + w) (drop (w - 1) bs))"
  by pat_completeness auto
termination
  by (relation "measure (\<lambda>(i, bs). length bs)") auto

definition runes :: "string \<Rightarrow> (nat \<times> nat) list" where
  "runes s = runes_from 0 (map of_char s)"

text \<open>
  ASCII code points come from ASCII bytes and the other way round, so a check on runes that
  only distinguishes ASCII code points is a check on bytes.
\<close>

lemma decodeRune_ascii: "c < 0x80 \<Longrightarrow> decodeRune c bs = (c, 1)"
  by (simp add: decodeRune_def)

lemma decodeRune_big:
  "0x80 \<le> c \<Longrightarrow> decodeRune c bs = (r, w) \<Longrightarrow>
   0x80 \<le> r \<and> (\<forall>b \<in> set (take (w - 1) bs). 0x80 \<le> b)"
  by (auto simp: decodeRune_def runeError_def cont_def split: list.splits if_splits)

lemma runes_from_all_iff:
  assumes nonascii: "\<And>c. 0x80 \<le> c \<Longrightarrow> P c = b"
  shows "(\<forall>(j, c) \<in> set (runes_from i bs). P c) \<longleftrightarrow> (\<forall>c \<in> set bs. P c)"
proof (induction i bs rule: runes_from.induct)
  case (1 i)
  then show ?case by simp
next
  case (2 i c bs)
  obtain r w where d: "decodeRune c bs = (r, w)" by fastforce
  have IH: "(\<forall>(j, c) \<in> set (runes_from (i + w) (drop (w - 1) bs)). P c) \<longleftrightarrow>
      (\<forall>c \<in> set (drop (w - 1) bs). P c)"
    using "2.IH" [OF d [symmetric] refl] .
  show ?case
  proof (cases "c < 0x80")
    case True
    with d IH show ?thesis by (simp add: decodeRune_ascii)
  next
    case False
    with d have big: "0x80 \<le> r" "\<forall>b \<in> set (take (w - 1) bs). 0x80 \<le> b"
      using decodeRune_big [of c bs r w] by auto
    have "set bs = set (take (w - 1) bs) \<union> set (drop (w - 1) bs)"
      by (metis append_take_drop_id set_append)
    moreover have "P r = b" "P c = b" "\<forall>x \<in> set (take (w - 1) bs). P x = b"
      using big False nonascii by auto
    ultimately show ?thesis
      using d IH by auto
  qed
qed

lemma runes_all_iff:
  assumes "\<And>c. 0x80 \<le> c \<Longrightarrow> P c = b"
  shows "(\<forall>(j, c) \<in> set (runes s). P c) \<longleftrightarrow> (\<forall>c \<in> set s. P (of_char c))"
  using runes_from_all_iff [of P b 0 "map of_char s"] assms by (simp add: runes_def)

lemma runes_find_None_iff:
  assumes "\<And>c. 0x80 \<le> c \<Longrightarrow> P c = b"
  shows "find (\<lambda>(i, c). \<not> P c) (runes s) = None \<longleftrightarrow> (\<forall>c \<in> set s. P (of_char c))"
proof -
  have "find (\<lambda>(i, c). \<not> P c) (runes s) = None \<longleftrightarrow> (\<forall>(j, c) \<in> set (runes s). P c)"
    by (auto simp: find_None_iff)
  then show ?thesis
    using runes_all_iff [of P b s, OF assms] by simp
qed

text \<open>Searching the runes of a string for an ASCII character finds its first byte.\<close>

lemma decodeRune_width_le: "decodeRune c bs = (r, w) \<Longrightarrow> 1 \<le> w \<and> w - 1 \<le> length bs"
  by (auto simp: decodeRune_def split: list.splits if_splits)

lemma runes_from_find_ascii:
  assumes "a < 0x80"
  shows "find (\<lambda>(i, c). c = a) (runes_from i bs) =
    (if a \<in> set bs then Some (i + length (takeWhile (\<lambda>c. c \<noteq> a) bs), a) else None)"
proof (induction i bs rule: runes_from.induct)
  case (1 i)
  then show ?case by simp
next
  case (2 i c bs)
  obtain r w where d: "decodeRune c bs = (r, w)" by fastforce
  note IH = "2.IH" [OF d [symmetric] refl]
  show ?case
  proof (cases "c < 0x80")
    case True
    with d IH show ?thesis by (auto simp: decodeRune_ascii)
  next
    case False
    have big: "0x80 \<le> r" "\<forall>b \<in> set (take (w - 1) bs). b \<noteq> a"
      using decodeRune_big [of c bs r w] d False assms by fastforce+
    have split: "bs = take (w - 1) bs @ drop (w - 1) bs"
      by simp
    have len: "length (take (w - 1) bs) = w - 1" "1 \<le> w"
      using decodeRune_width_le [OF d] by auto
    have "a \<in> set bs \<longleftrightarrow> a \<in> set (drop (w - 1) bs)"
      using big(2) by (metis Un_iff set_append split)
    moreover have "takeWhile (\<lambda>c. c \<noteq> a) bs = take (w - 1) bs @ takeWhile (\<lambda>c. c \<noteq> a) (drop (w - 1) bs)"
      using takeWhile_append2 [of "take (w - 1) bs" "\<lambda>c. c \<noteq> a" "drop (w - 1) bs"] big(2) by simp
    ultimately show ?thesis
      using IH d big len False assms by auto
  qed
qed

section \<open>The end of a list\<close>

text \<open>The last \<open>n\<close> elements of a list.\<close>

definition last_n :: "nat \<Rightarrow> 'a list \<Rightarrow> 'a list" where
  "last_n n xs = drop (length xs - n) xs"

lemma last_n_append_one:
  "length xs \<le> n \<Longrightarrow> 0 < n \<Longrightarrow>
   last_n n (xs @ [x]) = (if length xs < n then xs @ [x] else tl xs @ [x])"
  by (cases xs) (auto simp: last_n_def)

lemma last_n_snoc:
  "0 < n \<Longrightarrow> last_n n (xs @ [x]) =
     (if n \<le> length (last_n n xs) then tl (last_n n xs) else last_n n xs) @ [x]"
  by (auto simp: last_n_def tl_drop drop_Suc [symmetric] Suc_diff_le)

lemma rev_last_n: "rev (last_n n xs) = take n (rev xs)"
  by (cases "n \<le> length xs") (simp_all add: last_n_def rev_drop)

section \<open>Formatting\<close>
definition digit :: "nat \<Rightarrow> char" where
  "digit n = (if n < 10 then char_of (48 + n) else char_of (87 + n))"

fun show_nat :: "nat \<Rightarrow> string" where
  "show_nat n = (if n < 10 then [digit n] else show_nat (n div 10) @ [digit (n mod 10)])"

declare show_nat.simps [simp del]

text \<open>The verb \<open>%d\<close>.\<close>

definition show_int :: "int \<Rightarrow> string" where
  "show_int i = (if i < 0 then ''-'' @ show_nat (nat (- i)) else show_nat (nat i))"

text \<open>Decimal numbers consist of digits and can be read back.\<close>

lemma digit_code: "n < 10 \<Longrightarrow> of_char (digit n) = 48 + n"
  by (simp add: digit_def)

lemma show_nat_read: "foldl (\<lambda>v c. v * 10 + (of_char c - 48)) 0 (show_nat n) = n"
proof (induction n rule: show_nat.induct)
  case (1 n)
  then show ?case
    by (cases "n < 10") (simp_all add: show_nat.simps [of n] digit_code)
qed

lemma show_nat_inject: "show_nat m = show_nat n \<longleftrightarrow> m = n"
  by (metis show_nat_read)

lemma show_nat_Nil [simp]: "show_nat n \<noteq> []"
  by (simp add: show_nat.simps)

definition is_digit :: "char \<Rightarrow> bool" where
  "is_digit c \<longleftrightarrow> 48 \<le> (of_char c :: nat) \<and> of_char c \<le> (57 :: nat)"

lemma show_nat_is_digit: "c \<in> set (show_nat n) \<Longrightarrow> is_digit c"
proof (induction n rule: show_nat.induct)
  case (1 n)
  show ?case
  proof (cases "n < 10")
    case True
    then show ?thesis
      using 1 by (simp add: show_nat.simps [of n] is_digit_def digit_code)
  next
    case False
    then have "c \<in> set (show_nat (n div 10)) \<or> c = digit (n mod 10)"
      using "1.prems" by (auto simp: show_nat.simps [of n])
    then show ?thesis
      using 1 False by (auto simp: is_digit_def digit_code)
  qed
qed

text \<open>\<open>hex.EncodeToString\<close> and the verb \<open>%x\<close> on a byte slice.\<close>

definition hex_byte :: "byte \<Rightarrow> string" where
  "hex_byte b = [digit (unat b div 16), digit (unat b mod 16)]"

definition hex_encode :: "byte list \<Rightarrow> string" where
  "hex_encode bs = concat (map hex_byte bs)"

text \<open>\<open>hex.DecodeString\<close>: \<open>None\<close> on an odd length or a character that is no hex digit.\<close>

definition hex_value :: "char \<Rightarrow> nat option" where
  "hex_value c =
     (let n = of_char c in
      if 48 \<le> n \<and> n \<le> 57 then Some (n - 48)
      else if 97 \<le> n \<and> n \<le> 102 then Some (n - 87)
      else if 65 \<le> n \<and> n \<le> 70 then Some (n - 55)
      else None)"

fun hex_decode :: "string \<Rightarrow> byte list option" where
  "hex_decode [] = Some []"
| "hex_decode [c] = None"
| "hex_decode (c # d # cs) = do {
     h \<leftarrow> hex_value c;
     l \<leftarrow> hex_value d;
     bs \<leftarrow> hex_decode cs;
     Some (word_of_nat (16 * h + l) # bs)
   }"

lemma hex_value_digit: "n < 16 \<Longrightarrow> hex_value (digit n) = Some n"
  by (simp add: hex_value_def digit_def Let_def)

lemma hex_decode_encode [simp]: "hex_decode (hex_encode bs) = Some bs"
proof (induction bs)
  case Nil
  then show ?case by (simp add: hex_encode_def)
next
  case (Cons b bs)
  have "unat b < 256"
    using unsigned_less [of b, where ?'a = nat] by simp
  then have "unat b div 16 < 16"
    by (simp add: less_mult_imp_div_less)
  moreover have "16 * (word_of_nat (unat b div 16) :: byte) + word_of_nat (unat b mod 16) =
      word_of_nat (16 * (unat b div 16) + unat b mod 16)"
    by (simp only: of_nat_add of_nat_mult of_nat_numeral)
  ultimately show ?case
    using Cons.IH by (simp add: hex_encode_def hex_byte_def hex_value_digit)
qed

lemma length_hex_encode [simp]: "length (hex_encode bs) = 2 * length bs"
  by (induction bs) (auto simp: hex_encode_def hex_byte_def)

lemma hex_encode_inject [simp]: "hex_encode a = hex_encode b \<longleftrightarrow> a = b"
  by (metis hex_decode_encode option.inject)

section \<open>Time\<close>

text \<open>
  A \<open>time.Time\<close> is the number of nanoseconds since the Unix epoch, an unbounded integer; the
  zero \<open>time.Time{}\<close> is the first of January of year one. A \<open>time.Duration\<close> is an \<open>int64\<close>
  of nanoseconds, and multiplying durations wraps around.
\<close>

type_synonym time = int

definition zeroTime :: time where "zeroTime = -62135596800 * 10 ^ 9"

definition wrap64 :: "int \<Rightarrow> int" where
  "wrap64 x = (x + 2 ^ 63) mod 2 ^ 64 - 2 ^ 63"

definition Second :: int where "Second = 10 ^ 9"
definition Minute :: int where "Minute = 60 * Second"
definition Hour :: int where "Hour = 60 * Minute"

lemmas duration_defs = Second_def Minute_def Hour_def

lemma wrap64_id: "- (2 ^ 63) \<le> x \<Longrightarrow> x < 2 ^ 63 \<Longrightarrow> wrap64 x = x"
  by (simp add: wrap64_def)

lemma wrap64_range: "- (2 ^ 63) \<le> wrap64 x \<and> wrap64 x < 2 ^ 63"
  by (simp add: wrap64_def)

text \<open>The largest number of minutes whose duration does not wrap around.\<close>

definition maxMinutes :: int where "maxMinutes = 153722867"

lemma wrap64_minutes: "0 \<le> m \<Longrightarrow> m \<le> maxMinutes \<Longrightarrow> wrap64 (m * Minute) = m * Minute"
  by (rule wrap64_id) (auto simp: duration_defs maxMinutes_def)

text \<open>\<open>Time.Sub\<close> saturates at the ends of the \<open>Duration\<close> range.\<close>

definition time_sub :: "time \<Rightarrow> time \<Rightarrow> int" where
  "time_sub t u = max (- (2 ^ 63)) (min (2 ^ 63 - 1) (t - u))"

section \<open>Interfaces shared by the components\<close>

text \<open>
  A self-delimiting codec: decoding an encoded value followed by anything returns the value
  and the number of bytes it took. The laws below (unambiguous concatenation, decoding in the
  middle of a message) hold for every such codec.
\<close>

locale self_delimiting =
  fixes enc :: "'a \<Rightarrow> byte list"
    and dec :: "byte list \<Rightarrow> 'e + ('a \<times> nat)"
    and ok :: "'a \<Rightarrow> bool"
  assumes dec_enc: "ok x \<Longrightarrow> dec (enc x @ rest) = Inr (x, length (enc x))"
begin

lemma enc_append_inject:
  assumes "ok x" "ok y" "enc x @ r = enc y @ s"
  shows "x = y \<and> r = s"
proof -
  have "Inr (x, length (enc x)) = dec (enc y @ s)"
    using assms dec_enc [of x r] by simp
  also have "\<dots> = Inr (y, length (enc y))"
    using assms dec_enc [of y s] by simp
  finally show ?thesis
    using assms by simp
qed

lemma dec_at:
  "ok x \<Longrightarrow> off = length pre \<Longrightarrow> dec (drop off (pre @ enc x @ rest)) = Inr (x, length (enc x))"
  by (simp add: dec_enc)

end

text \<open>A codec whose decoder accepts nothing but encodings: the message is determined by its bytes.\<close>

locale exact_codec = self_delimiting +
  assumes dec_exact: "dec d = Inr (x, n) \<Longrightarrow> ok x \<and> n = length (enc x) \<and> (\<exists>r. d = enc x @ r)"
begin

lemma dec_iff: "dec d = Inr (x, n) \<longleftrightarrow> ok x \<and> n = length (enc x) \<and> (\<exists>r. d = enc x @ r)"
  using dec_exact dec_enc by auto

end

text \<open>
  An operation system: a state changed by labelled operations, with an invariant every
  operation keeps. The label carries the inputs of the call, the clock reading and the random
  bytes the call draws.
\<close>

definition run :: "('s \<Rightarrow> 'e \<Rightarrow> 's) \<Rightarrow> 's \<Rightarrow> 'e list \<Rightarrow> 's" where
  "run f s es = foldl f s es"

lemma run_simps [simp]:
  "run f s [] = s" "run f s (e # es) = run f (f s e) es" "run f s (es @ fs) = run f (run f s es) fs"
  by (simp_all add: run_def)

locale op_system =
  fixes apply_op :: "'s \<Rightarrow> 'e \<Rightarrow> 's"
    and inv :: "'s \<Rightarrow> bool"
  assumes step_inv: "inv s \<Longrightarrow> inv (apply_op s e)"
begin

lemma run_inv: "inv s \<Longrightarrow> inv (run apply_op s es)"
  by (induction es arbitrary: s) (auto intro: step_inv)

lemma run_prefix_inv: "inv s \<Longrightarrow> inv (run apply_op s (take n es))"
  by (rule run_inv)

lemma run_stable:
  assumes stable: "\<And>s e. inv s \<Longrightarrow> P s \<Longrightarrow> Q e \<Longrightarrow> P (apply_op s e)"
    and "inv s" "P s" "\<forall>e \<in> set es. Q e"
  shows "P (run apply_op s es)"
  using assms(2-) by (induction es arbitrary: s) (auto intro: step_inv stable)

end

text \<open>
  A functional refinement: every operation, on a state that satisfies the invariant, commutes
  with an abstraction function.
\<close>

locale refines = op_system apply_op inv
  for apply_op :: "'s \<Rightarrow> 'e \<Rightarrow> 's" and inv :: "'s \<Rightarrow> bool" +
  fixes abs :: "'s \<Rightarrow> 'a"
    and spec_op :: "'a \<Rightarrow> 'e \<Rightarrow> 'a"
  assumes step_abs: "inv s \<Longrightarrow> abs (apply_op s e) = spec_op (abs s) e"
begin

lemma run_abs: "inv s \<Longrightarrow> abs (run apply_op s es) = run spec_op (abs s) es"
  by (induction es arbitrary: s) (auto simp: step_abs step_inv)

end

section \<open>Step relations\<close>

text \<open>
  Runs of a labelled step relation, and the interface of an invariant that is kept by the steps
  whose labels are allowed.
\<close>

inductive trace :: "('s \<Rightarrow> 'l \<Rightarrow> 's \<Rightarrow> bool) \<Rightarrow> 's \<Rightarrow> 'l list \<Rightarrow> 's \<Rightarrow> bool" for step where
  trace_Nil: "trace step s [] s"
| trace_Cons: "step s l s' \<Longrightarrow> trace step s' ls s'' \<Longrightarrow> trace step s (l # ls) s''"

inductive_simps trace_simps [simp]: "trace step s [] s'" "trace step s (l # ls) s'"

lemma trace_append: "trace step s (ks @ ls) s' \<longleftrightarrow> (\<exists>s1. trace step s ks s1 \<and> trace step s1 ls s')"
  by (induction ks arbitrary: s) auto

locale step_system =
  fixes step :: "'s \<Rightarrow> 'l \<Rightarrow> 's \<Rightarrow> bool"
    and allowed :: "'l \<Rightarrow> bool"
    and inv :: "'s \<Rightarrow> bool"
  assumes step_inv: "inv s \<Longrightarrow> allowed l \<Longrightarrow> step s l s' \<Longrightarrow> inv s'"
begin

lemma trace_inv: "trace step s ls s' \<Longrightarrow> list_all allowed ls \<Longrightarrow> inv s \<Longrightarrow> inv s'"
  by (induction rule: trace.induct) (auto dest: step_inv)

end

end
