(* ===== verification/Grim_GQL_Opcodes.thy ===== *)
theory Grim_GQL_Opcodes
  imports Grim_Prelude
begin

text \<open>
  \<open>engine/gql/opcodes.go\<close> and \<open>engine/gql/errors.go\<close>: the protocol constants, the
  classification of operations into reads and writes, and the names of the error codes.
\<close>

section \<open>Constants\<close>

type_synonym Opcode = byte
type_synonym Flag = "16 word"
type_synonym Operation = string

definition Version :: byte where "Version = 1"

definition OpcodeQuery :: Opcode where "OpcodeQuery = 1"
definition OpcodeMutate :: Opcode where "OpcodeMutate = 2"
definition OpcodeResult :: Opcode where "OpcodeResult = 3"
definition OpcodeError :: Opcode where "OpcodeError = 4"

lemmas Opcode_defs = OpcodeQuery_def OpcodeMutate_def OpcodeResult_def OpcodeError_def

definition FlagNone :: Flag where "FlagNone = 0"
definition FlagCompressed :: Flag where "FlagCompressed = 1"
definition FlagEncrypted :: Flag where "FlagEncrypted = 2"

definition OpListEntries :: Operation where "OpListEntries = ''list_entries''"
definition OpGetEntry :: Operation where "OpGetEntry = ''get_entry''"
definition OpQueryEntries :: Operation where "OpQueryEntries = ''query_entries''"
definition OpCreateEntry :: Operation where "OpCreateEntry = ''create_entry''"
definition OpUpdateEntry :: Operation where "OpUpdateEntry = ''update_entry''"
definition OpDeleteEntry :: Operation where "OpDeleteEntry = ''delete_entry''"
definition OpSearchEntries :: Operation where "OpSearchEntries = ''search_entries''"
definition OpFileListFolder :: Operation where "OpFileListFolder = ''file.list_folder''"
definition OpFileCreateFolder :: Operation where "OpFileCreateFolder = ''file.create_folder''"
definition OpFileRenameFolder :: Operation where "OpFileRenameFolder = ''file.rename_folder''"
definition OpFileDeleteFolder :: Operation where "OpFileDeleteFolder = ''file.delete_folder''"
definition OpFileMove :: Operation where "OpFileMove = ''file.move''"
definition OpFileIngest :: Operation where "OpFileIngest = ''file.ingest''"
definition OpFileDownload :: Operation where "OpFileDownload = ''file.download''"
definition OpFileUploadStatus :: Operation where "OpFileUploadStatus = ''file.upload_progress''"
definition OpWorkspaceList :: Operation where "OpWorkspaceList = ''workspace.list''"
definition OpWorkspaceCreate :: Operation where "OpWorkspaceCreate = ''workspace.create''"
definition OpWorkspaceSwitch :: Operation where "OpWorkspaceSwitch = ''workspace.switch''"
definition OpWorkspaceRename :: Operation where "OpWorkspaceRename = ''workspace.rename''"
definition OpWorkspaceDelete :: Operation where "OpWorkspaceDelete = ''workspace.delete''"
definition OpSyncListPeers :: Operation where "OpSyncListPeers = ''sync.list_peers''"
definition OpSyncTrigger :: Operation where "OpSyncTrigger = ''sync.trigger''"
definition OpAuditList :: Operation where "OpAuditList = ''audit.list''"
definition OpToolSSHGen :: Operation where "OpToolSSHGen = ''tool.ssh_gen''"
definition OpToolRecoveryPhrase :: Operation where "OpToolRecoveryPhrase = ''tool.recovery_phrase''"
definition OpSystemHealth :: Operation where "OpSystemHealth = ''system.health''"

lemmas Operation_defs =
  OpListEntries_def OpGetEntry_def OpQueryEntries_def OpCreateEntry_def OpUpdateEntry_def
  OpDeleteEntry_def OpSearchEntries_def OpFileListFolder_def OpFileCreateFolder_def
  OpFileRenameFolder_def OpFileDeleteFolder_def OpFileMove_def OpFileIngest_def
  OpFileDownload_def OpFileUploadStatus_def OpWorkspaceList_def OpWorkspaceCreate_def
  OpWorkspaceSwitch_def OpWorkspaceRename_def OpWorkspaceDelete_def OpSyncListPeers_def
  OpSyncTrigger_def OpAuditList_def OpToolSSHGen_def OpToolRecoveryPhrase_def OpSystemHealth_def

definition FrameHeaderSize :: nat where "FrameHeaderSize = 8"
definition MaxPayloadSize :: nat where "MaxPayloadSize = 16 * 1024 * 1024"
definition MaxNamespaceLen :: nat where "MaxNamespaceLen = 128"
definition MaxEntryIDLen :: nat where "MaxEntryIDLen = 64"
definition MaxCategoryLen :: nat where "MaxCategoryLen = 32"
definition MaxFieldKeyLen :: nat where "MaxFieldKeyLen = 64"
definition MaxFieldValueLen :: nat where "MaxFieldValueLen = 8192"
definition MaxFieldsCount :: nat where "MaxFieldsCount = 100"
definition MaxDataLen :: nat where "MaxDataLen = 10 * 1024 * 1024"

lemmas Max_defs = MaxPayloadSize_def MaxNamespaceLen_def MaxEntryIDLen_def MaxCategoryLen_def
  MaxFieldKeyLen_def MaxFieldValueLen_def MaxFieldsCount_def

section \<open>Classification\<close>

definition isValidOpcode :: "Opcode \<Rightarrow> bool" where
  "isValidOpcode o' \<longleftrightarrow> o' \<in> {OpcodeQuery, OpcodeMutate, OpcodeResult, OpcodeError}"

definition isValidOperation :: "Operation \<Rightarrow> bool" where
  "isValidOperation op \<longleftrightarrow> op \<in>
     {OpListEntries, OpGetEntry, OpQueryEntries,
      OpCreateEntry, OpUpdateEntry, OpDeleteEntry,
      OpSearchEntries,
      OpFileListFolder, OpFileCreateFolder, OpFileRenameFolder,
      OpFileDeleteFolder, OpFileMove, OpFileIngest, OpFileDownload,
      OpFileUploadStatus,
      OpWorkspaceList, OpWorkspaceCreate, OpWorkspaceSwitch,
      OpWorkspaceRename, OpWorkspaceDelete,
      OpSyncListPeers, OpSyncTrigger,
      OpAuditList,
      OpToolSSHGen, OpToolRecoveryPhrase,
      OpSystemHealth}"

definition isReadOperation :: "Operation \<Rightarrow> bool" where
  "isReadOperation op \<longleftrightarrow> op \<in>
     {OpListEntries, OpGetEntry, OpQueryEntries,
      OpSearchEntries,
      OpFileListFolder, OpFileDownload, OpFileUploadStatus,
      OpWorkspaceList,
      OpSyncListPeers,
      OpAuditList,
      OpToolRecoveryPhrase,
      OpSystemHealth}"

definition isWriteOperation :: "Operation \<Rightarrow> bool" where
  "isWriteOperation op \<longleftrightarrow> op \<in>
     {OpCreateEntry, OpUpdateEntry, OpDeleteEntry,
      OpFileCreateFolder, OpFileRenameFolder, OpFileDeleteFolder,
      OpFileMove, OpFileIngest,
      OpWorkspaceCreate, OpWorkspaceSwitch, OpWorkspaceRename,
      OpWorkspaceDelete,
      OpSyncTrigger,
      OpToolSSHGen}"

text \<open>
  The read and the write operations partition the known operations: no operation is in
  both classes, every known operation is in one, and neither class holds an unknown one. So the
  opcode of a frame fixes the class, and a write can never pass as a read.
\<close>

theorem operation_classes_partition:
  "\<not> (isReadOperation op \<and> isWriteOperation op) \<and>
   (isValidOperation op \<longleftrightarrow> isReadOperation op \<or> isWriteOperation op)"
proof
  show "\<not> (isReadOperation op \<and> isWriteOperation op)"
    by (auto simp: isReadOperation_def isWriteOperation_def Operation_defs)
  show "isValidOperation op \<longleftrightarrow> isReadOperation op \<or> isWriteOperation op"
    unfolding isValidOperation_def isReadOperation_def isWriteOperation_def by blast
qed

lemma empty_not_operation [simp]: "\<not> isReadOperation ''''" "\<not> isWriteOperation ''''"
  by (simp_all add: isReadOperation_def isWriteOperation_def Operation_defs)

lemma write_not_read: "isWriteOperation op \<Longrightarrow> \<not> isReadOperation op"
  by (auto simp: isReadOperation_def isWriteOperation_def Operation_defs)

section \<open>Error code names\<close>

definition ErrorCodeNames :: "(int, string) gomap" where
  "ErrorCodeNames =
     [(-1, ''BUS_TIMEOUT''),
      (-2, ''INVALID_STORAGE_RESPONSE''),
      (-3, ''STORAGE_ERROR''),
      (-10, ''MISSING_ENTRY_ID''),
      (-11, ''ENTRY_NOT_FOUND''),
      (-20, ''CATEGORY_QUERY_FAILED''),
      (-30, ''CREATE_FAILED''),
      (-31, ''UPDATE_FAILED''),
      (-32, ''DELETE_FAILED''),
      (-100, ''DISPATCHER_UNAVAILABLE''),
      (-101, ''INVALID_FRAME''),
      (-102, ''SCHEMA_VALIDATION''),
      (-103, ''ACL_DENIED''),
      (-104, ''NOT_A_QUERY_FRAME''),
      (-105, ''DISPATCH_ERROR'')]"

definition ErrorCodeName :: "int \<Rightarrow> string" where
  "ErrorCodeName code =
     (case gomap_get ErrorCodeNames code of Some name \<Rightarrow> name | None \<Rightarrow> ''UNKNOWN'')"

lemma gomap_ErrorCodeNames: "gomap ErrorCodeNames"
  by (simp add: gomap_def ErrorCodeNames_def)

end
