(* ===== verification/Grim_GQL_Types.thy ===== *)
theory Grim_GQL_Types
  imports Grim_GQL_Opcodes
begin

text \<open>
  \<open>engine/gql/types.go\<close>: the query record and its binary codec. \<open>GQLQuery_Encode\<close> fills a
  preallocated buffer as the code does; \<open>query_bytes\<close> is the layout the comment above
  \<open>Encode\<close> documents, and the first lemmas show that the two agree. \<open>DecodeQuery\<close> walks the
  payload with an offset, with every error return of the source and the panics a slice
  expression could raise.
\<close>

section \<open>Data\<close>

record GQLQuery =
  q_Namespace :: string
  q_Operation :: Operation
  q_EntryID :: string
  q_Category :: string
  q_Title :: string
  q_Fields :: "(string, string) gomap"
  q_Credentials :: "byte list"
  q_Limit :: "32 word"
  q_Offset :: "32 word"

record GQLEntry =
  e_ID :: string
  e_Category :: string
  e_Type :: string
  e_Title :: string
  e_Fields :: "(string, string) gomap"
  e_CreatedAt :: int
  e_UpdatedAt :: int

record GQLResult =
  r_RequestID :: string
  r_Success :: bool
  r_Entries :: "GQLEntry list"
  r_TotalCount :: "32 word"
  r_ErrorCode :: int
  r_ErrorMsg :: string

datatype field_error =
    FieldTooShort
  | FieldTruncated nat nat

datatype decode_error =
    GoPanic
  | PayloadTooShort
  | FieldCountExceeds nat
  | FieldError string field_error
  | TruncatedAtField nat
  | FieldKeyError nat field_error
  | TruncatedAtFieldValue nat
  | FieldValueError nat field_error
  | TruncatedAtLimit
  | TruncatedAtOffset

section \<open>Encoding\<close>

definition serializeField :: "byte list \<Rightarrow> nat \<Rightarrow> string \<Rightarrow> (byte list \<times> nat) option" where
  "serializeField buf offset s = do {
     (buf, offset) \<leftarrow> go_write buf offset (be16 (word_of_nat (length s)));
     buf \<leftarrow> go_copy buf offset (bytes_of s);
     Some (buf, offset + length s)
   }"

definition fieldSize :: "string \<Rightarrow> nat" where
  "fieldSize s = 2 + length s"

fun serializeFields :: "byte list \<Rightarrow> nat \<Rightarrow> (string, string) gomap \<Rightarrow> (byte list \<times> nat) option" where
  "serializeFields buf off [] = Some (buf, off)"
| "serializeFields buf off ((k, v) # kvs) = do {
     (buf, off) \<leftarrow> serializeField buf off k;
     (buf, off) \<leftarrow> serializeField buf off v;
     serializeFields buf off kvs
   }"

definition GQLQuery_size :: "GQLQuery \<Rightarrow> nat" where
  "GQLQuery_size q =
     1 + fieldSize (q_Operation q) + fieldSize (q_Namespace q) + fieldSize (q_EntryID q)
       + fieldSize (q_Category q) + fieldSize (q_Title q)
       + (\<Sum>(k, v) \<leftarrow> q_Fields q. fieldSize k + fieldSize v)
       + 4 + 4 + fieldSize (string_of (q_Credentials q))"

definition field_count_byte :: "GQLQuery \<Rightarrow> byte" where
  "field_count_byte q =
     (let fc = word_of_nat (length (q_Fields q))
      in if MaxFieldsCount < unat fc then word_of_nat MaxFieldsCount else fc)"

definition GQLQuery_write :: "GQLQuery \<Rightarrow> byte list \<Rightarrow> nat \<Rightarrow> (byte list \<times> nat) option" where
  "GQLQuery_write q buf off = do {
     (buf, off) \<leftarrow> go_write buf off [field_count_byte q];
     (buf, off) \<leftarrow> serializeField buf off (q_Operation q);
     (buf, off) \<leftarrow> serializeField buf off (q_Namespace q);
     (buf, off) \<leftarrow> serializeField buf off (q_EntryID q);
     (buf, off) \<leftarrow> serializeField buf off (q_Category q);
     (buf, off) \<leftarrow> serializeField buf off (q_Title q);
     (buf, off) \<leftarrow> serializeFields buf off (q_Fields q);
     (buf, off) \<leftarrow> go_write buf off (be32 (q_Limit q));
     (buf, off) \<leftarrow> go_write buf off (be32 (q_Offset q));
     serializeField buf off (string_of (q_Credentials q))
   }"

definition GQLQuery_Encode :: "GQLQuery \<Rightarrow> byte list option" where
  "GQLQuery_Encode q = do {
     let buf = replicate (GQLQuery_size q) 0;
     (buf, off) \<leftarrow> GQLQuery_write q buf 0;
     Some buf
   }"

section \<open>Decoding\<close>

definition deserializeField :: "byte list \<Rightarrow> field_error + (string \<times> nat)" where
  "deserializeField data =
     (if length data < 2 then Inl FieldTooShort
      else
        let l = unat (the (u16_of (take 2 data))) in
        if length data < 2 + l then Inl (FieldTruncated (2 + l) (length data))
        else Inr (string_of (take l (drop 2 data)), 2 + l))"

definition readField :: "string \<Rightarrow> byte list \<Rightarrow> nat \<Rightarrow> decode_error + (string \<times> nat)" where
  "readField name payload off =
     (case slice_from payload off of
        None \<Rightarrow> Inl GoPanic
      | Some data \<Rightarrow>
          (case deserializeField data of
             Inl e \<Rightarrow> Inl (FieldError name e)
           | Inr (s, n) \<Rightarrow> Inr (s, off + n)))"

fun decodeFields :: "nat \<Rightarrow> nat \<Rightarrow> byte list \<Rightarrow> nat \<Rightarrow> (string, string) gomap \<Rightarrow>
    decode_error + ((string, string) gomap \<times> nat)" where
  "decodeFields i 0 payload off kvs = Inr (kvs, off)"
| "decodeFields i (Suc n) payload off kvs =
     (if length payload \<le> off then Inl (TruncatedAtField i)
      else (case deserializeField (drop off payload) of
        Inl e \<Rightarrow> Inl (FieldKeyError i e)
      | Inr (k, kn) \<Rightarrow>
          (let off = off + kn in
           if length payload \<le> off then Inl (TruncatedAtFieldValue i)
           else (case deserializeField (drop off payload) of
             Inl e \<Rightarrow> Inl (FieldValueError i e)
           | Inr (v, vn) \<Rightarrow> decodeFields (Suc i) n payload (off + vn) (gomap_set kvs k v)))))"

definition readU32 :: "decode_error \<Rightarrow> byte list \<Rightarrow> nat \<Rightarrow> decode_error + (32 word \<times> nat)" where
  "readU32 truncated payload off =
     (if length payload < off + 4 then Inl truncated
      else case u32_of (drop off payload) of
        None \<Rightarrow> Inl GoPanic
      | Some v \<Rightarrow> Inr (v, off + 4))"

definition readCredentials :: "byte list \<Rightarrow> nat \<Rightarrow> decode_error + byte list" where
  "readCredentials payload off =
     (if off < length payload
      then bindE (readField ''credentials'' payload off) (\<lambda>(s, off). Inr (bytes_of s))
      else Inr [])"

definition DecodeQuery :: "byte list \<Rightarrow> Operation \<Rightarrow> decode_error + GQLQuery" where
  "DecodeQuery payload op =
     (if length payload < 1 then Inl PayloadTooShort
      else
        let fieldCount = unat (payload ! 0); off = 1 in
        if MaxFieldsCount < fieldCount then Inl (FieldCountExceeds fieldCount)
        else
          bindE (readField ''operation'' payload off) (\<lambda>(s, off).
          let oper = (if s \<noteq> '''' then s else op) in
          bindE (readField ''namespace'' payload off) (\<lambda>(namespace, off).
          bindE (readField ''entry_id'' payload off) (\<lambda>(entryID, off).
          bindE (readField ''category'' payload off) (\<lambda>(category, off).
          bindE (readField ''title'' payload off) (\<lambda>(title, off).
          bindE (decodeFields 0 fieldCount payload off []) (\<lambda>(kvs, off).
          bindE (readU32 TruncatedAtLimit payload off) (\<lambda>(limit, off).
          bindE (readU32 TruncatedAtOffset payload off) (\<lambda>(offset, off).
          bindE (readCredentials payload off) (\<lambda>credentials.
          Inr \<lparr>q_Namespace = namespace, q_Operation = oper, q_EntryID = entryID,
               q_Category = category, q_Title = title, q_Fields = kvs,
               q_Credentials = credentials, q_Limit = limit, q_Offset = offset\<rparr>))))))))))"

section \<open>The documented layout\<close>

definition field_bytes :: "string \<Rightarrow> byte list" where
  "field_bytes s = be16 (word_of_nat (length s)) @ bytes_of s"

definition pairs_bytes :: "(string, string) gomap \<Rightarrow> byte list" where
  "pairs_bytes kvs = concat (map (\<lambda>(k, v). field_bytes k @ field_bytes v) kvs)"

definition query_bytes :: "GQLQuery \<Rightarrow> byte list" where
  "query_bytes q =
     [field_count_byte q] @ field_bytes (q_Operation q) @ field_bytes (q_Namespace q) @
     field_bytes (q_EntryID q) @ field_bytes (q_Category q) @ field_bytes (q_Title q) @
     pairs_bytes (q_Fields q) @ be32 (q_Limit q) @ be32 (q_Offset q) @
     field_bytes (string_of (q_Credentials q))"

lemma length_field_bytes [simp, codec_simps]: "length (field_bytes s) = fieldSize s"
  by (simp add: field_bytes_def fieldSize_def)

lemma pairs_bytes_simps [simp]:
  "pairs_bytes [] = []" "pairs_bytes ((k, v) # kvs) = field_bytes k @ field_bytes v @ pairs_bytes kvs"
  by (simp_all add: pairs_bytes_def)

lemma length_pairs_bytes [simp, codec_simps]:
  "length (pairs_bytes kvs) = (\<Sum>(k, v) \<leftarrow> kvs. fieldSize k + fieldSize v)"
  by (induction kvs) auto

lemma length_query_bytes: "length (query_bytes q) = GQLQuery_size q"
  by (simp add: query_bytes_def GQLQuery_size_def)

lemma fills_serializeField [intro]: "fills (\<lambda>buf off. serializeField buf off s) (field_bytes s)"
  using fills_bind [OF fills_write [of "be16 (word_of_nat (length s))"] fills_copy [of "bytes_of s"]]
  by (simp add: serializeField_def field_bytes_def)

lemma fills_serializeFields [intro]:
  "fills (\<lambda>buf off. serializeFields buf off kvs) (pairs_bytes kvs)"
proof (induction kvs)
  case Nil
  then show ?case by auto
next
  case (Cons kv kvs)
  then show ?case
    by (cases kv) (simp, intro fills_bind fills_serializeField)
qed

lemma fills_GQLQuery_write: "fills (GQLQuery_write q) (query_bytes q)"
  unfolding GQLQuery_write_def [abs_def] query_bytes_def
  by (intro fills_bind fills_write fills_serializeField fills_serializeFields)

text \<open>
  Encoding never panics and fills its buffer exactly: the precomputed size is the
  number of bytes written, every byte is written once, and the result is the documented layout,
  whatever the query holds.
\<close>

theorem GQLQuery_Encode_layout:
  "GQLQuery_Encode q = Some (query_bytes q) \<and> length (query_bytes q) = GQLQuery_size q"
  using fills_fresh [OF fills_GQLQuery_write, of q]
  by (simp add: GQLQuery_Encode_def length_query_bytes)

section \<open>Decoding what was encoded\<close>

definition rest_at :: "byte list \<Rightarrow> nat \<Rightarrow> byte list \<Rightarrow> bool" where
  "rest_at p off r \<longleftrightarrow> off \<le> length p \<and> drop off p = r"

lemma rest_at_length: "rest_at p off r \<Longrightarrow> length p = off + length r"
  by (auto simp: rest_at_def)

lemma rest_at_append:
  assumes "rest_at p off (b @ r)"
  shows "rest_at p (off + length b) r"
proof -
  have "drop (off + length b) p = drop (length b) (drop off p)"
    by (simp add: add.commute)
  with assms rest_at_length [OF assms] show ?thesis
    by (simp add: rest_at_def)
qed

lemma unat_word16_of_nat: "unat (word_of_nat n :: 16 word) = n mod 65536"
  by (simp add: unat_of_nat)

text \<open>
  The length prefix has sixteen bits and is not checked on encoding: a string of 65536 bytes or
  more is written whole behind a prefix that has wrapped around, and the decoder reads back
  only the first \<open>length mod 65536\<close> bytes.
\<close>

lemma deserializeField_Some:
  "u16_of (take 2 data) = Some v \<Longrightarrow>
   deserializeField data =
     (if length data < 2 + unat v then Inl (FieldTruncated (2 + unat v) (length data))
      else Inr (string_of (take (unat v) (drop 2 data)), 2 + unat v))"
  using u16_of_eq_None [of "take 2 data"] by (auto simp: deserializeField_def Let_def)

lemma deserializeField_InrE:
  assumes "deserializeField data = Inr (s, n)"
  obtains v where "u16_of (take 2 data) = Some v" "2 + unat v \<le> length data"
    "s = string_of (take (unat v) (drop 2 data))" "n = 2 + unat v"
proof -
  have "\<not> length data < 2"
    using assms by (auto simp: deserializeField_def)
  then obtain v where v: "u16_of (take 2 data) = Some v"
    using u16_of_eq_None [of "take 2 data"] by (cases "u16_of (take 2 data)") auto
  show thesis
    using v assms deserializeField_Some [OF v] by (intro that [of v]) (auto split: if_splits)
qed

lemma deserializeField_field_bytes:
  "deserializeField (field_bytes s @ rest) =
     Inr (take (length s mod 65536) s, 2 + length s mod 65536)"
proof -
  let ?v = "word_of_nat (length s) :: 16 word" let ?m = "length s mod 65536"
  have "take 2 (field_bytes s @ rest) = be16 ?v @ []"
    by (simp add: field_bytes_def)
  then have "u16_of (take 2 (field_bytes s @ rest)) = Some ?v"
    by (simp only: u16_of_be16)
  moreover have "take ?m (drop 2 (field_bytes s @ rest)) = bytes_of (take ?m s)"
    by (simp add: field_bytes_def take_bytes_of)
  moreover have "\<not> length (field_bytes s @ rest) < 2 + ?m"
    using mod_less_eq_dividend [of "length s" 65536] by (simp add: fieldSize_def)
  ultimately show ?thesis
    by (simp add: deserializeField_Some unat_word16_of_nat del: length_append drop_append take_append)
qed

interpretation field: self_delimiting field_bytes deserializeField "\<lambda>s. length s < 65536"
  by unfold_locales (simp add: deserializeField_field_bytes fieldSize_def)

lemma readField_at:
  assumes "rest_at p off (field_bytes s @ r)" "length s < 65536"
  shows "readField name p off = Inr (s, off + fieldSize s)"
  using assms field.dec_enc [of s r]
  by (simp add: readField_def slice_from_def rest_at_def)

lemma readU32_at:
  assumes "rest_at p off (be32 v @ r)"
  shows "readU32 e p off = Inr (v, off + 4)"
  using assms rest_at_length [OF assms] by (simp add: readU32_def rest_at_def)

lemma decodeFields_at:
  assumes "rest_at p off (pairs_bytes kvs @ r)"
    and "gomap (acc @ kvs)"
    and "\<forall>(k, v) \<in> set kvs. length k < 65536 \<and> length v < 65536"
  shows "decodeFields i (length kvs) p off acc = Inr (acc @ kvs, off + length (pairs_bytes kvs))"
  using assms
proof (induction kvs arbitrary: i off acc)
  case Nil
  then show ?case by simp
next
  case (Cons kv kvs)
  obtain k v where kv: "kv = (k, v)" by fastforce
  have at_k: "rest_at p off (field_bytes k @ field_bytes v @ pairs_bytes kvs @ r)"
    using Cons.prems(1) kv by simp
  have at_v: "rest_at p (off + fieldSize k) (field_bytes v @ pairs_bytes kvs @ r)"
    using rest_at_append [OF at_k] by simp
  have at_rest: "rest_at p (off + fieldSize k + fieldSize v) (pairs_bytes kvs @ r)"
    using rest_at_append [OF at_v] by simp
  have len: "length k < 65536" "length v < 65536"
    using Cons.prems(3) kv by auto
  have "deserializeField (drop off p) = Inr (k, fieldSize k)"
    using at_k field.dec_enc [OF len(1)] by (simp add: rest_at_def)
  moreover have "deserializeField (drop (off + fieldSize k) p) = Inr (v, fieldSize v)"
    using at_v field.dec_enc [OF len(2)] by (simp add: rest_at_def)
  moreover have "off < length p" "off + fieldSize k < length p"
    using rest_at_length [OF at_k] rest_at_length [OF at_v] by (simp_all add: fieldSize_def)
  moreover have "gomap_set acc k v = acc @ [(k, v)]"
    using Cons.prems(2) kv by (intro gomap_set_fresh) (auto simp: gomap_def)
  moreover have "decodeFields (Suc i) (length kvs) p (off + fieldSize k + fieldSize v)
      (acc @ [(k, v)]) = Inr ((acc @ [(k, v)]) @ kvs,
        off + fieldSize k + fieldSize v + length (pairs_bytes kvs))"
    using Cons.prems kv at_rest by (intro Cons.IH) auto
  ultimately show ?case
    by (simp add: kv)
qed

text \<open>What a query must satisfy for its encoding to be faithful.\<close>

definition encodable :: "GQLQuery \<Rightarrow> bool" where
  "encodable q \<longleftrightarrow>
     gomap (q_Fields q) \<and> length (q_Fields q) \<le> MaxFieldsCount \<and>
     (\<forall>(k, v) \<in> set (q_Fields q). length k < 65536 \<and> length v < 65536) \<and>
     length (q_Operation q) < 65536 \<and> length (q_Namespace q) < 65536 \<and>
     length (q_EntryID q) < 65536 \<and> length (q_Category q) < 65536 \<and>
     length (q_Title q) < 65536 \<and> length (q_Credentials q) < 65536"

lemma field_count_byte_small:
  "length (q_Fields q) \<le> MaxFieldsCount \<Longrightarrow> unat (field_count_byte q) = length (q_Fields q)"
  by (simp add: field_count_byte_def MaxFieldsCount_def unat_of_nat Let_def)

lemma DecodeQuery_query_bytes:
  assumes "encodable q"
  shows "DecodeQuery (query_bytes q @ junk) op =
    Inr (q\<lparr>q_Operation := (if q_Operation q \<noteq> '''' then q_Operation q else op)\<rparr>)"
proof -
  define p where "p = query_bytes q @ junk"
  define cr where "cr = string_of (q_Credentials q)"
  note ok = assms [unfolded encodable_def]
  have a1: "rest_at p 1 (field_bytes (q_Operation q) @ field_bytes (q_Namespace q) @
     field_bytes (q_EntryID q) @ field_bytes (q_Category q) @ field_bytes (q_Title q) @
     pairs_bytes (q_Fields q) @ be32 (q_Limit q) @ be32 (q_Offset q) @ field_bytes cr @ junk)"
    by (simp add: rest_at_def p_def cr_def query_bytes_def)
  note a2 = rest_at_append [OF a1] note a3 = rest_at_append [OF a2]
  note a4 = rest_at_append [OF a3] note a5 = rest_at_append [OF a4]
  note a6 = rest_at_append [OF a5] note a7 = rest_at_append [OF a6]
  note a8 = rest_at_append [OF a7] note a9 = rest_at_append [OF a8]
  have head: "p = field_count_byte q # tl p" "\<not> length p < 1"
    by (simp_all add: p_def query_bytes_def)
  have fc: "unat (p ! 0) = length (q_Fields q)"
    using ok by (subst head) (simp add: field_count_byte_small)
  have dec: "decodeFields 0 (length (q_Fields q)) p off [] =
      Inr (q_Fields q, off + length (pairs_bytes (q_Fields q)))"
    if "rest_at p off (pairs_bytes (q_Fields q) @ r)" for off r
    using decodeFields_at [of p off "q_Fields q" r "[]" 0] that ok by simp
  have len: "length p = GQLQuery_size q + length junk"
    by (simp add: p_def length_query_bytes)
  have "\<not> MaxFieldsCount < length (q_Fields q)"
    using ok by simp
  with ok show ?thesis
    using readField_at [OF a1] readField_at [OF a2] readField_at [OF a3] readField_at [OF a4]
      readField_at [OF a5] dec [OF a6] readU32_at [OF a7] readU32_at [OF a8]
      readField_at [OF a9, of "''credentials''"]
    unfolding p_def [symmetric] DecodeQuery_def Let_def
    by (simp add: head(2) fc cr_def len GQLQuery_size_def fieldSize_def readCredentials_def)
qed

section \<open>What decoding can return\<close>

lemma deserializeField_Inr:
  assumes "deserializeField d = Inr (s, n)"
  shows "length s < 65536 \<and> n = 2 + length s \<and> n \<le> length d"
proof -
  obtain v where v: "u16_of (take 2 d) = Some v" and le: "2 + unat v \<le> length d"
    and s: "s = string_of (take (unat v) (drop 2 d))" and n: "n = 2 + unat v"
    using assms by (rule deserializeField_InrE)
  have "unat v < 65536"
    using unsigned_less [of v] by simp
  with le s n show ?thesis
    by simp
qed

lemma readField_Inr:
  assumes "readField name p off = Inr (s, off')"
  shows "length s < 65536 \<and> off \<le> off' \<and> off' \<le> length p"
  using assms deserializeField_Inr [of "drop off p" s "off' - off"]
  by (auto simp: readField_def slice_from_def split: if_splits sum.splits dest: deserializeField_Inr)

lemma readField_no_panic: "off \<le> length p \<Longrightarrow> readField name p off \<noteq> Inl GoPanic"
  by (auto simp: readField_def slice_from_def split: sum.splits)

lemma readU32_no_panic: "e \<noteq> GoPanic \<Longrightarrow> readU32 e p off \<noteq> Inl GoPanic"
  by (auto simp: readU32_def split: option.splits)

lemma readU32_Inr: "readU32 e p off = Inr (v, off') \<Longrightarrow> off' \<le> length p"
  by (auto simp: readU32_def split: if_splits option.splits)

lemma length_gomap_set: "length (gomap_set m k v) \<le> Suc (length m)"
  by (induction m) (auto simp: gomap_set_def)

definition short_pairs :: "(string, string) gomap \<Rightarrow> bool" where
  "short_pairs kvs \<longleftrightarrow> (\<forall>(k, v) \<in> set kvs. length k < 65536 \<and> length v < 65536)"

lemma short_pairs_set:
  "short_pairs kvs \<Longrightarrow> length k < 65536 \<Longrightarrow> length v < 65536 \<Longrightarrow> short_pairs (gomap_set kvs k v)"
  by (induction kvs) (auto simp: short_pairs_def gomap_set_def split: if_splits)

lemma decodeFields_Inr:
  assumes "decodeFields i n p off acc = Inr (kvs, off')" "gomap acc" "short_pairs acc" "off \<le> length p"
  shows "gomap kvs \<and> short_pairs kvs \<and> length kvs \<le> length acc + n \<and> off' \<le> length p"
  using assms
proof (induction i n p off acc rule: decodeFields.induct)
  case (1 i p off acc)
  then show ?case by simp
next
  case (2 i n p off acc)
  from "2.prems"(1) obtain k kn v vn where
    k: "deserializeField (drop off p) = Inr (k, kn)" and
    v: "deserializeField (drop (off + kn) p) = Inr (v, vn)" and
    lt: "\<not> length p \<le> off" "\<not> length p \<le> off + kn" and
    rec: "decodeFields (Suc i) n p (off + kn + vn) (gomap_set acc k v) = Inr (kvs, off')"
    by (auto simp: Let_def split: if_splits sum.splits)
  have "gomap kvs \<and> short_pairs kvs \<and> length kvs \<le> length (gomap_set acc k v) + n \<and> off' \<le> length p"
    using "2.IH" [OF lt(1) k _ _ lt(2) v _ rec] "2.prems" deserializeField_Inr [OF k]
      deserializeField_Inr [OF v] by (auto simp: short_pairs_set)
  with length_gomap_set [of acc k v] show ?case
    by simp
qed

lemma decodeFields_no_panic: "decodeFields i n p off acc \<noteq> Inl GoPanic"
  by (induction i n p off acc rule: decodeFields.induct) (auto simp: Let_def split: sum.splits)

lemma readCredentials_Inr: "readCredentials p off = Inr cr \<Longrightarrow> length cr < 65536"
  by (auto simp: readCredentials_def bindE_eq_Inr split: if_splits dest: readField_Inr)

lemma DecodeQuery_InrE:
  assumes "DecodeQuery p op = Inr q"
  obtains s o1 ns o2 eid o3 cat o4 ti o5 kvs o6 li o7 os o8 cr where
    "1 \<le> length p" "unat (p ! 0) \<le> MaxFieldsCount"
    "readField ''operation'' p 1 = Inr (s, o1)" "readField ''namespace'' p o1 = Inr (ns, o2)"
    "readField ''entry_id'' p o2 = Inr (eid, o3)" "readField ''category'' p o3 = Inr (cat, o4)"
    "readField ''title'' p o4 = Inr (ti, o5)"
    "decodeFields 0 (unat (p ! 0)) p o5 [] = Inr (kvs, o6)"
    "readU32 TruncatedAtLimit p o6 = Inr (li, o7)" "readU32 TruncatedAtOffset p o7 = Inr (os, o8)"
    "readCredentials p o8 = Inr cr"
    "q = \<lparr>q_Namespace = ns, q_Operation = (if s \<noteq> '''' then s else op), q_EntryID = eid,
          q_Category = cat, q_Title = ti, q_Fields = kvs, q_Credentials = cr, q_Limit = li,
          q_Offset = os\<rparr>"
proof -
  have len: "\<not> length p < 1" and fc: "\<not> MaxFieldsCount < unat (p ! 0)"
    using assms by (auto simp: DecodeQuery_def Let_def split: if_splits)
  from assms len fc show ?thesis
    unfolding DecodeQuery_def Let_def
    by (simp only: bindE_eq_Inr split_paired_Ex prod.case if_False)
      (elim exE conjE, rule that, auto simp: Suc_le_eq)
qed

lemma DecodeQuery_Inr:
  assumes "DecodeQuery p op = Inr q"
  shows "gomap (q_Fields q) \<and> short_pairs (q_Fields q) \<and> length (q_Fields q) \<le> MaxFieldsCount \<and>
    length (q_Namespace q) < 65536 \<and> length (q_EntryID q) < 65536 \<and> length (q_Category q) < 65536 \<and>
    length (q_Title q) < 65536 \<and> length (q_Credentials q) < 65536 \<and>
    (length (q_Operation q) < 65536 \<or> q_Operation q = op)"
  using assms
proof (rule DecodeQuery_InrE, goal_cases)
  case (1 s o1 ns o2 eid o3 cat o4 ti o5 kvs o6 li o7 os o8 cr)
  note reads = 1(3-7) [THEN readField_Inr]
  have "gomap kvs \<and> short_pairs kvs \<and> length kvs \<le> unat (p ! 0)"
    using decodeFields_Inr [OF 1(8)] reads(5) by (simp add: short_pairs_def)
  moreover have "length cr < 65536"
    using 1(11) by (rule readCredentials_Inr)
  ultimately show ?case
    using 1(2,12) reads by auto
qed

section \<open>Properties of the codec\<close>

definition sample_query :: GQLQuery where
  "sample_query =
     \<lparr>q_Namespace = ''default'', q_Operation = OpCreateEntry, q_EntryID = ''test-id-123'',
      q_Category = ''PASSWORD'', q_Title = ''My Test Entry'',
      q_Fields = [(''username'', ''alice''), (''url'', ''https://example.com'')],
      q_Credentials = bytes_of ''proof'', q_Limit = 50, q_Offset = 0\<rparr>"

lemma encodable_sample: "encodable sample_query"
  by (simp add: encodable_def sample_query_def gomap_def OpCreateEntry_def MaxFieldsCount_def)

lemma encodable_if_decoded:
  assumes "DecodeQuery p op = Inr q" "length op < 65536"
  shows "encodable q"
  using DecodeQuery_Inr [OF assms(1)] assms(2)
  by (auto simp: encodable_def short_pairs_def)

lemma encodable_iff:
  "gomap (q_Fields q) \<Longrightarrow>
   encodable q \<longleftrightarrow>
     length (q_Fields q) \<le> 100 \<and>
     list_all (\<lambda>(k, v). length k < 65536 \<and> length v < 65536) (q_Fields q) \<and>
     length (q_Namespace q) < 65536 \<and> length (q_Operation q) < 65536 \<and>
     length (q_EntryID q) < 65536 \<and> length (q_Category q) < 65536 \<and>
     length (q_Title q) < 65536 \<and> length (q_Credentials q) < 65536"
  by (auto simp: encodable_def MaxFieldsCount_def list_all_iff)

lemma GQLQuery_Encode_query_bytes: "GQLQuery_Encode q = Some (query_bytes q)"
  using fills_fresh [OF fills_GQLQuery_write, of q] by (simp add: GQLQuery_Encode_def length_query_bytes)

text \<open>
  C4. Encoding followed by decoding, with the default operation \<open>op\<close>, is the identity on exactly
  the queries within the bounds of the format (at most 100 fields and no string of 65536 bytes or
  more) whose operation is not empty or is the default: for an empty operation the decoder keeps
  the default one. Every field is then returned byte for byte, whatever bytes the strings hold, and
  bytes after the encoding are ignored. For every other query the encoder still returns a buffer
  without an error, and decoding it does not give the query back. The default operation itself is
  assumed to fit a length prefix, as all operations of the code do.
\<close>

theorem query_roundtrip_iff:
  assumes "gomap (q_Fields q)" "length op < 65536"
  shows "\<exists>bs. GQLQuery_Encode q = Some bs \<and>
    (DecodeQuery (bs @ junk) op = Inr q \<longleftrightarrow>
       length (q_Fields q) \<le> 100 \<and>
       list_all (\<lambda>(k, v). length k < 65536 \<and> length v < 65536) (q_Fields q) \<and>
       length (q_Namespace q) < 65536 \<and> length (q_Operation q) < 65536 \<and>
       length (q_EntryID q) < 65536 \<and> length (q_Category q) < 65536 \<and>
       length (q_Title q) < 65536 \<and> length (q_Credentials q) < 65536 \<and>
       (q_Operation q \<noteq> '''' \<or> op = ''''))"
proof -
  have "DecodeQuery (query_bytes q @ junk) op = Inr q \<longleftrightarrow> encodable q \<and> (q_Operation q \<noteq> '''' \<or> op = '''')"
    using DecodeQuery_query_bytes [of q junk op] encodable_if_decoded [OF _ assms(2), of _ q]
    by (cases q) auto
  then show ?thesis
    using assms(1) by (simp add: GQLQuery_Encode_query_bytes encodable_iff)
qed

theorem query_roundtrip_iff_witness:
  "\<exists>bs. GQLQuery_Encode sample_query = Some bs \<and> DecodeQuery (bs @ [0, 255]) OpGetEntry = Inr sample_query"
  using query_roundtrip_iff [of sample_query OpGetEntry "[0, 255]"]
  by (simp add: sample_query_def gomap_def OpCreateEntry_def OpGetEntry_def)

lemma DecodeQuery_query_bytes_self:
  "encodable q \<Longrightarrow> DecodeQuery (query_bytes q @ junk) '''' = Inr q"
  by (cases q) (auto simp: DecodeQuery_query_bytes)

text \<open>
  The encoding is unambiguous: two queries within the bounds with the same bytes, or
  with bytes of which one is a prefix of the other's message, are the same query in every field.
  No content of one field can be read as another field.
\<close>

theorem query_encoding_injective:
  assumes "encodable q1" "encodable q2" "query_bytes q1 @ junk1 = query_bytes q2 @ junk2"
  shows "q1 = q2 \<and> junk1 = junk2"
proof -
  have "q1 = q2"
    using DecodeQuery_query_bytes_self [OF assms(1), of junk1]
      DecodeQuery_query_bytes_self [OF assms(2), of junk2] assms(3) by simp
  with assms(3) show ?thesis
    by simp
qed

theorem query_encoding_injective_witness:
  "sample_query = sample_query \<and> [7 :: byte] = [7]"
  by (rule query_encoding_injective [OF encodable_sample encodable_sample]) (rule refl)


end
