(* ===== verification/Grim_GQL_Frame.thy ===== *)
theory Grim_GQL_Frame
  imports Grim_GQL_Types
begin

text \<open>
  \<open>engine/gql/frame.go\<close>: the eight-byte header and its payload. Encoding fills a buffer;
  decoding checks, in the order of the source, length, version, opcode, payload limit and exact
  size.
\<close>

section \<open>Frames\<close>

record Frame =
  f_Version :: byte
  f_Opcode :: Opcode
  f_Flags :: Flag
  f_PayloadSize :: "32 word"
  f_Payload :: "byte list"

datatype frame_error =
    FrameTooShort nat
  | UnsupportedVersion byte
  | UnknownOpcode byte
  | PayloadSizeExceeds nat
  | FrameLengthMismatch nat nat

definition Frame_Encode :: "Frame \<Rightarrow> byte list option" where
  "Frame_Encode f = do {
     let buf = replicate (FrameHeaderSize + length (f_Payload f)) 0;
     buf \<leftarrow> go_put buf 0 [f_Version f];
     buf \<leftarrow> go_put buf 1 [f_Opcode f];
     buf \<leftarrow> go_put buf 2 (be16 (f_Flags f));
     buf \<leftarrow> go_put buf 4 (be32 (word_of_nat (length (f_Payload f))));
     go_copy buf 8 (f_Payload f)
   }"

definition DecodeFrame :: "byte list \<Rightarrow> frame_error + Frame" where
  "DecodeFrame data =
     (if length data < FrameHeaderSize then Inl (FrameTooShort (length data))
      else
        let version = data ! 0;
            opcode = data ! 1;
            flags = the (u16_of (take 2 (drop 2 data)));
            payloadSize = the (u32_of (take 4 (drop 4 data)));
            expectedLen = FrameHeaderSize + unat payloadSize
        in
        if version \<noteq> Version then Inl (UnsupportedVersion version)
        else if \<not> isValidOpcode opcode then Inl (UnknownOpcode opcode)
        else if MaxPayloadSize < unat payloadSize then Inl (PayloadSizeExceeds (unat payloadSize))
        else if length data \<noteq> expectedLen then Inl (FrameLengthMismatch (length data) expectedLen)
        else Inr \<lparr>f_Version = version, f_Opcode = opcode, f_Flags = flags,
                  f_PayloadSize = payloadSize,
                  f_Payload = (if 0 < unat payloadSize then drop 8 data else [])\<rparr>)"

definition NewQueryFrame :: "GQLQuery \<Rightarrow> Frame option" where
  "NewQueryFrame query = do {
     payload \<leftarrow> GQLQuery_Encode query;
     let opcode = (if isWriteOperation (q_Operation query) then OpcodeMutate else OpcodeQuery);
     Some \<lparr>f_Version = Version, f_Opcode = opcode, f_Flags = FlagNone,
           f_PayloadSize = word_of_nat (length payload), f_Payload = payload\<rparr>
   }"

section \<open>Layout\<close>

definition header_bytes :: "Frame \<Rightarrow> byte list" where
  "header_bytes f =
     [f_Version f] @ [f_Opcode f] @ be16 (f_Flags f) @ be32 (word_of_nat (length (f_Payload f)))"

lemma length_header_bytes [simp]: "length (header_bytes f) = 8"
  by (simp add: header_bytes_def)

lemma Frame_Encode_layout: "Frame_Encode f = Some (header_bytes f @ f_Payload f)"
  by (simp add: Frame_Encode_def FrameHeaderSize_def header_bytes_def go_put_def go_copy_def
      be16_def be32_def numeral_eq_Suc)

text \<open>The frames the decoder can produce.\<close>

definition wire_frame :: "Frame \<Rightarrow> bool" where
  "wire_frame f \<longleftrightarrow> f_Version f = Version \<and> isValidOpcode (f_Opcode f) \<and>
     length (f_Payload f) \<le> MaxPayloadSize \<and> f_PayloadSize f = word_of_nat (length (f_Payload f))"

lemma unat_payload_length:
  "n \<le> MaxPayloadSize \<Longrightarrow> unat (word_of_nat n :: 32 word) = n"
  by (simp add: MaxPayloadSize_def unat_of_nat take_bit_nat_eq_self)

lemma DecodeFrame_layout:
  assumes "wire_frame f"
  shows "DecodeFrame (header_bytes f @ f_Payload f) = Inr f"
proof -
  define data where "data = header_bytes f @ f_Payload f"
  have "take 2 (drop 2 data) = be16 (f_Flags f) @ []"
    and "take 4 (drop 4 data) = be32 (word_of_nat (length (f_Payload f))) @ []"
    by (simp_all add: data_def header_bytes_def be16_def be32_def numeral_eq_Suc)
  then have "the (u16_of (take 2 (drop 2 data))) = f_Flags f"
    and "the (u32_of (take 4 (drop 4 data))) = word_of_nat (length (f_Payload f))"
    by (simp_all only: u16_of_be16 u32_of_be32 option.sel)
  moreover have "data ! 0 = f_Version f" "data ! 1 = f_Opcode f" "drop 8 data = f_Payload f"
    "length data = 8 + length (f_Payload f)"
    by (simp_all add: data_def) (simp_all add: header_bytes_def)
  ultimately show ?thesis
    using assms unat_payload_length [of "length (f_Payload f)"]
    unfolding data_def [symmetric] DecodeFrame_def Let_def
    by (cases f) (auto simp: wire_frame_def FrameHeaderSize_def)
qed

lemma list8_cases:
  assumes "8 \<le> length xs"
  obtains a0 a1 a2 a3 a4 a5 a6 a7 ys where "xs = [a0, a1, a2, a3, a4, a5, a6, a7] @ ys"
  using assms by (auto simp: numeral_eq_Suc Suc_le_length_iff)

lemma DecodeFrame_Inr:
  assumes "DecodeFrame data = Inr f"
  shows "wire_frame f \<and> data = header_bytes f @ f_Payload f"
proof -
  have "8 \<le> length data"
    using assms by (auto simp: DecodeFrame_def FrameHeaderSize_def split: if_splits)
  then obtain a0 a1 a2 a3 a4 a5 a6 a7 ys where data: "data = [a0, a1, a2, a3, a4, a5, a6, a7] @ ys"
    by (rule list8_cases)
  define sz where "sz = the (u32_of [a4, a5, a6, a7])"
  define fl where "fl = the (u16_of [a2, a3])"
  have be: "be32 sz = [a4, a5, a6, a7]" "be16 fl = [a2, a3]"
    by (rule be32_u32_of be16_u16_of, simp add: sz_def fl_def)+
  have f: "f = \<lparr>f_Version = a0, f_Opcode = a1, f_Flags = fl, f_PayloadSize = sz, f_Payload = ys\<rparr>"
    and chk: "a0 = Version" "isValidOpcode a1" "unat sz \<le> MaxPayloadSize" "length ys = unat sz"
    using assms by (auto simp: DecodeFrame_def data FrameHeaderSize_def Let_def sz_def fl_def
        numeral_eq_Suc split: if_splits)
  have "word_of_nat (length ys) = sz"
    by (simp add: chk)
  with f chk be show ?thesis
    by (simp add: wire_frame_def header_bytes_def data)
qed

text \<open>
  C10. The frame codec is a bijection between the byte strings the decoder accepts and the
  frames with the current version, a known opcode and a payload of at most 16 MiB: decoding
  returns a frame exactly when the frame is of that kind and its encoding is the input. No two
  byte strings decode to the same frame, nothing is lost and no trailing byte is accepted.
\<close>

theorem DecodeFrame_iff:
  "DecodeFrame data = Inr f \<longleftrightarrow> wire_frame f \<and> Frame_Encode f = Some data"
  using DecodeFrame_Inr DecodeFrame_layout by (auto simp: Frame_Encode_layout)

text \<open>
  A frame built for a query reaches the other side intact: for a query within the
  format's bounds whose payload fits the frame limit, \<open>NewQueryFrame\<close>, \<open>Encode\<close>,
  \<open>DecodeFrame\<close> and \<open>DecodeQuery\<close> in sequence return the same query, under the opcode of
  its class.
\<close>

theorem query_frame_roundtrip:
  assumes "encodable q" "q_Operation q \<noteq> ''''" "GQLQuery_size q \<le> MaxPayloadSize"
  shows "\<exists>f data. NewQueryFrame q = Some f \<and> Frame_Encode f = Some data \<and> DecodeFrame data = Inr f \<and>
    DecodeQuery (f_Payload f) op = Inr q \<and>
    f_Opcode f = (if isWriteOperation (q_Operation q) then OpcodeMutate else OpcodeQuery)"
proof -
  let ?oc = "if isWriteOperation (q_Operation q) then OpcodeMutate else OpcodeQuery"
  define f where "f = \<lparr>f_Version = Version, f_Opcode = ?oc, f_Flags = FlagNone,
    f_PayloadSize = word_of_nat (length (query_bytes q)), f_Payload = query_bytes q\<rparr>"
  have "NewQueryFrame q = Some f"
    using fills_fresh [OF fills_GQLQuery_write, of q]
    by (simp add: NewQueryFrame_def GQLQuery_Encode_def length_query_bytes f_def)
  moreover have "wire_frame f"
    using assms by (simp add: wire_frame_def f_def length_query_bytes isValidOpcode_def)
  moreover have "DecodeQuery (f_Payload f) op = Inr q"
    using DecodeQuery_query_bytes [OF assms(1), of "[]" op] assms(2) by (simp add: f_def)
  moreover have "f_Opcode f = ?oc"
    by (simp add: f_def)
  ultimately show ?thesis
    using DecodeFrame_layout [of f] Frame_Encode_layout [of f] by blast
qed

theorem query_frame_roundtrip_witness:
  "\<exists>f data. NewQueryFrame sample_query = Some f \<and> Frame_Encode f = Some data \<and>
    DecodeFrame data = Inr f \<and> DecodeQuery (f_Payload f) '''' = Inr sample_query \<and>
    f_Opcode f = OpcodeMutate"
proof -
  have "q_Operation sample_query = OpCreateEntry"
    by (simp add: sample_query_def)
  then have "isWriteOperation (q_Operation sample_query)" "q_Operation sample_query \<noteq> ''''"
    by (simp_all add: isWriteOperation_def OpCreateEntry_def)
  moreover have "GQLQuery_size sample_query \<le> MaxPayloadSize"
    by (simp add: GQLQuery_size_def sample_query_def fieldSize_def OpCreateEntry_def MaxPayloadSize_def)
  ultimately show ?thesis
    using query_frame_roundtrip [OF encodable_sample, of "''''"] by simp
qed

end
