(* ===== verification/Grim_GQL_Validator.thy ===== *)
theory Grim_GQL_Validator
  imports Grim_GQL_Frame
begin

text \<open>
  \<open>engine/gql/validator.go\<close>: the two-stage validation of a frame. Stage one decodes and
  checks the query syntactically, stage two authorises it against the session. An \<open>error\<close>
  result is \<open>None\<close> for nil; the numbers and strings that the source formats into the text
  of an error are kept as arguments of its reason.
\<close>

section \<open>Session interface and errors\<close>

record SessionInfo =
  s_IsUnlocked :: bool
  s_ActiveHandle :: string
  s_UserID :: string
  s_HasRole :: "string \<Rightarrow> bool"

datatype reason =
    R_UnsupportedVersion byte
  | R_UnknownOpcode byte
  | R_ExceedsMaximum nat nat
  | R_EmptyPayload
  | R_ZeroLength
  | R_OpcodeNotAllowed
  | R_DecodeFailed decode_error
  | R_RequiredFieldEmpty
  | R_ExceedsMaximumLength nat nat
  | R_InvalidIdentifierChar nat nat
  | R_ControlChar nat nat
  | R_DelChar nat
  | R_TooManyFields nat nat
  | R_RequiresRead Operation
  | R_RequiresWrite Operation

datatype acl_reason =
    A_NoActiveSession
  | A_VaultLocked
  | A_NoActiveHandle
  | A_RequiresCredentials
  | A_NamespaceMismatch string string

datatype validation_error =
    SyntacticError string reason
  | SemanticError Operation acl_reason

text \<open>\<open>if err := a; err != nil { return err }\<close> followed by \<open>b\<close>.\<close>

fun err_then :: "'e option \<Rightarrow> 'e option \<Rightarrow> 'e option" where
  "err_then (Some e) b = Some e"
| "err_then None b = b"

lemma err_then_None [simp]: "err_then a b = None \<longleftrightarrow> a = None \<and> b = None"
  by (cases a) auto

section \<open>Checks on strings\<close>

definition validateStringField :: "string \<Rightarrow> string \<Rightarrow> bool \<Rightarrow> nat \<Rightarrow> validation_error option" where
  "validateStringField name value required maxLen =
     (if required \<and> value = '''' then Some (SyntacticError name R_RequiredFieldEmpty)
      else if maxLen < length value
      then Some (SyntacticError name (R_ExceedsMaximumLength (length value) maxLen))
      else None)"

definition isIdentChar :: "nat \<Rightarrow> bool" where
  "isIdentChar c =
     (if of_char CHR ''a'' \<le> c \<and> c \<le> of_char CHR ''z'' then True
      else if of_char CHR ''A'' \<le> c \<and> c \<le> of_char CHR ''Z'' then True
      else if of_char CHR ''0'' \<le> c \<and> c \<le> of_char CHR ''9'' then True
      else if c = of_char CHR ''_'' \<or> c = of_char CHR ''-'' \<or> c = of_char CHR ''.'' then True
      else False)"

definition validateIdentifier :: "string \<Rightarrow> string \<Rightarrow> validation_error option" where
  "validateIdentifier name value =
     (if value = '''' then None
      else case find (\<lambda>(i, c). \<not> isIdentChar c) (runes value) of
        Some (i, c) \<Rightarrow> Some (SyntacticError name (R_InvalidIdentifierChar i c))
      | None \<Rightarrow> None)"

definition isPrintableRune :: "nat \<Rightarrow> bool" where
  "isPrintableRune c \<longleftrightarrow> \<not> (c < 0x20 \<and> c \<noteq> 9) \<and> c \<noteq> 0x7F"

definition validatePrintable :: "string \<Rightarrow> string \<Rightarrow> validation_error option" where
  "validatePrintable name value =
     (if value = '''' then None
      else case find (\<lambda>(i, c). \<not> isPrintableRune c) (runes value) of
        Some (i, c) \<Rightarrow>
          if c < 0x20 \<and> c \<noteq> 9 then Some (SyntacticError name (R_ControlChar i c))
          else Some (SyntacticError name (R_DelChar i))
      | None \<Rightarrow> None)"

text \<open>
  \<open>strings.TrimSpace\<close> removes leading and trailing white space as \<open>unicode.IsSpace\<close>
  defines it; it is applied here to the decoded runes of the key.
\<close>

definition isSpace :: "nat \<Rightarrow> bool" where
  "isSpace c \<longleftrightarrow> c \<in> {9, 10, 11, 12, 13, 32, 0x85, 0xA0, 0x1680, 0x2028, 0x2029, 0x202F, 0x205F, 0x3000} \<or>
     (0x2000 \<le> c \<and> c \<le> 0x200A)"

definition TrimSpace :: "(nat \<times> nat) list \<Rightarrow> (nat \<times> nat) list" where
  "TrimSpace rs =
     rev (dropWhile (\<lambda>(i, c). isSpace c) (rev (dropWhile (\<lambda>(i, c). isSpace c) rs)))"

definition SanitizeFieldKey :: "string \<Rightarrow> string" where
  "SanitizeFieldKey key =
     concat (map (\<lambda>(i, c). if isIdentChar c then [char_of c] else []) (TrimSpace (runes key)))"

section \<open>Validation\<close>

definition validatePayloadBytes :: "byte list \<Rightarrow> validation_error option" where
  "validatePayloadBytes payload =
     (if length payload = 0 then Some (SyntacticError ''payload'' R_ZeroLength)
      else
        let fieldCount = unat (payload ! 0) in
        if MaxFieldsCount < fieldCount
        then Some (SyntacticError ''field_count'' (R_ExceedsMaximum fieldCount MaxFieldsCount))
        else None)"

fun validateFields :: "(string, string) gomap \<Rightarrow> validation_error option" where
  "validateFields [] = None"
| "validateFields ((k, v) # kvs) =
     err_then (validateStringField ''fields.key'' k False MaxFieldKeyLen)
    (err_then (validateIdentifier ''fields.key'' k)
    (err_then (validateStringField ''fields.value'' v False MaxFieldValueLen)
    (err_then (validatePrintable ''fields.value'' v)
     (validateFields kvs))))"

definition validateQuery :: "GQLQuery \<Rightarrow> Opcode \<Rightarrow> validation_error option" where
  "validateQuery q opcode =
     err_then (validateStringField ''namespace'' (q_Namespace q) True MaxNamespaceLen)
    (err_then (validateIdentifier ''namespace'' (q_Namespace q))
    (err_then (if q_EntryID q \<noteq> ''''
               then err_then (validateStringField ''entry_id'' (q_EntryID q) False MaxEntryIDLen)
                             (validateIdentifier ''entry_id'' (q_EntryID q))
               else None)
    (err_then (if q_Category q \<noteq> ''''
               then err_then (validateStringField ''category'' (q_Category q) False MaxCategoryLen)
                             (validateIdentifier ''category'' (q_Category q))
               else None)
    (err_then (if q_Title q \<noteq> ''''
               then err_then (validateStringField ''title'' (q_Title q) False MaxFieldValueLen)
                             (validatePrintable ''title'' (q_Title q))
               else None)
    (err_then (if MaxFieldsCount < length (q_Fields q)
               then Some (SyntacticError ''fields'' (R_TooManyFields (length (q_Fields q)) MaxFieldsCount))
               else None)
    (err_then (validateFields (q_Fields q))
    (err_then (if opcode = OpcodeQuery \<and> \<not> isReadOperation (q_Operation q)
               then Some (SyntacticError ''operation'' (R_RequiresRead (q_Operation q)))
               else None)
     (if opcode = OpcodeMutate \<and> \<not> isWriteOperation (q_Operation q)
      then Some (SyntacticError ''operation'' (R_RequiresWrite (q_Operation q)))
      else None))))))))"

definition validateACL :: "GQLQuery \<Rightarrow> SessionInfo option \<Rightarrow> validation_error option" where
  "validateACL q session =
     (case session of
        None \<Rightarrow> Some (SemanticError (q_Operation q) A_NoActiveSession)
      | Some s \<Rightarrow>
          if \<not> s_IsUnlocked s then Some (SemanticError (q_Operation q) A_VaultLocked)
          else if s_ActiveHandle s = '''' then Some (SemanticError (q_Operation q) A_NoActiveHandle)
          else if isWriteOperation (q_Operation q) \<and> length (q_Credentials q) = 0
          then Some (SemanticError (q_Operation q) A_RequiresCredentials)
          else
            let userID = s_UserID s in
            if userID \<noteq> '''' \<and> q_Namespace q \<noteq> '''' \<and> q_Namespace q \<noteq> userID
            then if \<not> s_HasRole s ''admin''
                 then Some (SemanticError (q_Operation q) (A_NamespaceMismatch (q_Namespace q) userID))
                 else None
            else None)"

definition ValidateFrame :: "Frame \<Rightarrow> SessionInfo option \<Rightarrow> validation_error + GQLQuery option" where
  "ValidateFrame frame session =
     (if f_Version frame \<noteq> Version
      then Inl (SyntacticError ''version'' (R_UnsupportedVersion (f_Version frame)))
      else if \<not> isValidOpcode (f_Opcode frame)
      then Inl (SyntacticError ''opcode'' (R_UnknownOpcode (f_Opcode frame)))
      else if f_Opcode frame = OpcodeResult \<or> f_Opcode frame = OpcodeError then Inr None
      else if MaxPayloadSize < unat (f_PayloadSize frame)
      then Inl (SyntacticError ''payload_size''
                 (R_ExceedsMaximum (unat (f_PayloadSize frame)) MaxPayloadSize))
      else if length (f_Payload frame) = 0 then Inl (SyntacticError ''payload'' R_EmptyPayload)
      else case validatePayloadBytes (f_Payload frame) of
        Some e \<Rightarrow> Inl e
      | None \<Rightarrow>
          if f_Opcode frame \<noteq> OpcodeQuery \<and> f_Opcode frame \<noteq> OpcodeMutate
          then Inl (SyntacticError ''opcode'' R_OpcodeNotAllowed)
          else case DecodeQuery (f_Payload frame) '''' of
            Inl e \<Rightarrow> Inl (SyntacticError ''payload'' (R_DecodeFailed e))
          | Inr query \<Rightarrow>
              (case validateQuery query (f_Opcode frame) of
                 Some e \<Rightarrow> Inl e
               | None \<Rightarrow>
                   (case validateACL query session of
                      Some e \<Rightarrow> Inl e
                    | None \<Rightarrow> Inr (Some query))))"

section \<open>The checks as predicates on bytes\<close>

definition ident_string :: "string \<Rightarrow> bool" where
  "ident_string s \<longleftrightarrow> (\<forall>c \<in> set s. isIdentChar (of_char c))"

definition printable_string :: "string \<Rightarrow> bool" where
  "printable_string s \<longleftrightarrow> (\<forall>c \<in> set s. isPrintableRune (of_char c))"

lemma isIdentChar_ascii: "0x80 \<le> c \<Longrightarrow> isIdentChar c = False"
  by (simp add: isIdentChar_def)

lemma isPrintableRune_nonascii: "0x80 \<le> c \<Longrightarrow> isPrintableRune c = True"
  by (simp add: isPrintableRune_def)

lemma validateIdentifier_None_iff: "validateIdentifier name s = None \<longleftrightarrow> ident_string s"
  using runes_find_None_iff [of isIdentChar False s, OF isIdentChar_ascii]
  by (cases "find (\<lambda>(i, c). \<not> isIdentChar c) (runes s)")
    (auto simp: validateIdentifier_def ident_string_def)

lemma validatePrintable_None_iff: "validatePrintable name s = None \<longleftrightarrow> printable_string s"
  using runes_find_None_iff [of isPrintableRune True s, OF isPrintableRune_nonascii]
  by (cases "find (\<lambda>(i, c). \<not> isPrintableRune c) (runes s)")
    (auto simp: validatePrintable_def printable_string_def split: if_splits)

lemma validateStringField_None_iff:
  "validateStringField name s required n = None \<longleftrightarrow> (required \<longrightarrow> s \<noteq> '''') \<and> length s \<le> n"
  by (auto simp: validateStringField_def)

lemmas check_iffs = validateIdentifier_None_iff validatePrintable_None_iff validateStringField_None_iff

definition pair_wellformed :: "string \<times> string \<Rightarrow> bool" where
  "pair_wellformed kv \<longleftrightarrow>
     length (fst kv) \<le> MaxFieldKeyLen \<and> ident_string (fst kv) \<and>
     length (snd kv) \<le> MaxFieldValueLen \<and> printable_string (snd kv)"

lemma validateFields_None_iff: "validateFields kvs = None \<longleftrightarrow> (\<forall>kv \<in> set kvs. pair_wellformed kv)"
  by (induction kvs) (auto simp: check_iffs pair_wellformed_def)

text \<open>The syntactic contract of a validated query.\<close>

definition query_wellformed :: "GQLQuery \<Rightarrow> bool" where
  "query_wellformed q \<longleftrightarrow>
     q_Namespace q \<noteq> '''' \<and> length (q_Namespace q) \<le> MaxNamespaceLen \<and> ident_string (q_Namespace q) \<and>
     length (q_EntryID q) \<le> MaxEntryIDLen \<and> ident_string (q_EntryID q) \<and>
     length (q_Category q) \<le> MaxCategoryLen \<and> ident_string (q_Category q) \<and>
     length (q_Title q) \<le> MaxFieldValueLen \<and> printable_string (q_Title q) \<and>
     length (q_Fields q) \<le> MaxFieldsCount \<and> (\<forall>kv \<in> set (q_Fields q). pair_wellformed kv)"

definition class_matches :: "GQLQuery \<Rightarrow> Opcode \<Rightarrow> bool" where
  "class_matches q opcode \<longleftrightarrow>
     opcode = OpcodeQuery \<and> isReadOperation (q_Operation q) \<or>
     opcode = OpcodeMutate \<and> isWriteOperation (q_Operation q)"

lemma string_Nil_ok [simp]: "ident_string ''''" "printable_string ''''"
  by (simp_all add: ident_string_def printable_string_def)

lemma validateQuery_None_iff:
  assumes "opcode \<in> {OpcodeQuery, OpcodeMutate}"
  shows "validateQuery q opcode = None \<longleftrightarrow> query_wellformed q \<and> class_matches q opcode"
proof -
  have "OpcodeQuery \<noteq> OpcodeMutate"
    by (simp add: Opcode_defs)
  with assms show ?thesis
    unfolding validateQuery_def query_wellformed_def class_matches_def
    by (auto simp: check_iffs validateFields_None_iff)
qed

text \<open>The authorisation contract.\<close>

definition authorised :: "SessionInfo option \<Rightarrow> GQLQuery \<Rightarrow> bool" where
  "authorised session q \<longleftrightarrow>
     (\<exists>s. session = Some s \<and> s_IsUnlocked s \<and> s_ActiveHandle s \<noteq> '''' \<and>
        (isWriteOperation (q_Operation q) \<longrightarrow> q_Credentials q \<noteq> []) \<and>
        (s_UserID s = '''' \<or> q_Namespace q = '''' \<or> q_Namespace q = s_UserID s \<or> s_HasRole s ''admin''))"

lemma validateACL_None_iff: "validateACL q session = None \<longleftrightarrow> authorised session q"
  by (auto simp: validateACL_def authorised_def Let_def split: option.splits if_splits)

lemma validatePayloadBytes_None: "DecodeQuery p op = Inr q \<Longrightarrow> validatePayloadBytes p = None"
  by (auto simp: validatePayloadBytes_def Let_def elim: DecodeQuery_InrE)

section \<open>Properties of validation\<close>

lemma ValidateFrame_Some_iff:
  "ValidateFrame f session = Inr (Some q) \<longleftrightarrow>
     f_Version f = Version \<and> f_Opcode f \<in> {OpcodeQuery, OpcodeMutate} \<and>
     unat (f_PayloadSize f) \<le> MaxPayloadSize \<and> DecodeQuery (f_Payload f) '''' = Inr q \<and>
     query_wellformed q \<and> class_matches q (f_Opcode f) \<and> authorised session q"
  (is "?lhs \<longleftrightarrow> ?rhs")
proof
  assume ?lhs
  then have op: "f_Opcode f \<in> {OpcodeQuery, OpcodeMutate}"
    and dec: "DecodeQuery (f_Payload f) '''' = Inr q"
    and chk: "validateQuery q (f_Opcode f) = None" "validateACL q session = None"
    and rest: "f_Version f = Version" "unat (f_PayloadSize f) \<le> MaxPayloadSize"
    by (auto simp: ValidateFrame_def split: if_splits option.splits sum.splits)
  show ?rhs
    using op dec rest chk(1) [unfolded validateQuery_None_iff [OF op]] chk(2)
    by (simp add: validateACL_None_iff)
next
  assume r: ?rhs
  then have "validateQuery q (f_Opcode f) = None" "validateACL q session = None"
    by (simp_all add: validateQuery_None_iff validateACL_None_iff)
  moreover have "validatePayloadBytes (f_Payload f) = None"
    using r validatePayloadBytes_None by blast
  moreover have "f_Payload f \<noteq> []"
    using r by (auto simp: DecodeQuery_def)
  moreover have "isValidOpcode (f_Opcode f)" "f_Opcode f \<noteq> OpcodeResult" "f_Opcode f \<noteq> OpcodeError"
    using r by (auto simp: isValidOpcode_def Opcode_defs)
  ultimately show ?lhs
    using r by (auto simp: ValidateFrame_def)
qed

text \<open>
  C3. Soundness and completeness of validation. \<open>ValidateFrame\<close> hands a query on exactly
  when the frame has the current version and a request opcode, its declared size is within the
  limit, its payload decodes to that query, every string of the query is within its length limit
  and alphabet, the operation is of the class the opcode announces, and the session authorises it
  (unlocked, with an active handle, credentials for a write, own namespace unless no user is set
  or the session is an admin's).
\<close>

theorem ValidateFrame_accepts_iff:
  "ValidateFrame f session = Inr (Some q) \<longleftrightarrow>
     f_Version f = Version \<and> f_Opcode f \<in> {OpcodeQuery, OpcodeMutate} \<and>
     unat (f_PayloadSize f) \<le> MaxPayloadSize \<and> DecodeQuery (f_Payload f) '''' = Inr q \<and>
     query_wellformed q \<and> class_matches q (f_Opcode f) \<and> authorised session q"
  by (rule ValidateFrame_Some_iff)

lemma wellformed_pairs_size:
  assumes "\<forall>kv \<in> set kvs. pair_wellformed kv"
  shows "(\<Sum>(k, v) \<leftarrow> kvs. fieldSize k + fieldSize v) \<le> length kvs * 8260"
  using assms
  by (induction kvs) (auto simp: pair_wellformed_def fieldSize_def MaxFieldKeyLen_def MaxFieldValueLen_def)

lemma operation_length:
  "isReadOperation op \<or> isWriteOperation op \<Longrightarrow> op \<noteq> '''' \<and> length op \<le> 20"
  by (auto simp: isReadOperation_def isWriteOperation_def Operation_defs)

lemma wellformed_encodable:
  assumes "query_wellformed q" "class_matches q oc" "gomap (q_Fields q)" "length (q_Credentials q) < 65536"
  shows "encodable q \<and> q_Operation q \<noteq> '''' \<and> GQLQuery_size q \<le> MaxPayloadSize"
proof -
  have op: "q_Operation q \<noteq> ''''" "length (q_Operation q) \<le> 20"
    using assms(2) operation_length by (auto simp: class_matches_def)
  have "(\<Sum>(k, v) \<leftarrow> q_Fields q. fieldSize k + fieldSize v) \<le> 100 * 8260"
    using wellformed_pairs_size [of "q_Fields q"] assms(1)
    by (fastforce simp: query_wellformed_def MaxFieldsCount_def)
  then have "GQLQuery_size q \<le> MaxPayloadSize"
    using assms(1,4) op unfolding GQLQuery_size_def query_wellformed_def Max_defs
    by (simp add: fieldSize_def)
  moreover have "\<forall>(k, v) \<in> set (q_Fields q). length k < 65536 \<and> length v < 65536"
    using assms(1) by (fastforce simp: query_wellformed_def pair_wellformed_def Max_defs)
  ultimately show ?thesis
    using assms op by (simp add: encodable_def query_wellformed_def Max_defs)
qed

lemma request_accepted:
  assumes "query_wellformed q" "isValidOperation (q_Operation q)" "gomap (q_Fields q)"
    and "length (q_Credentials q) < 65536" "authorised session q"
  shows "\<exists>f data. NewQueryFrame q = Some f \<and> Frame_Encode f = Some data \<and> DecodeFrame data = Inr f \<and>
    ValidateFrame f session = Inr (Some q)"
proof -
  let ?oc = "if isWriteOperation (q_Operation q) then OpcodeMutate else OpcodeQuery"
  define f where "f = \<lparr>f_Version = Version, f_Opcode = ?oc, f_Flags = FlagNone,
    f_PayloadSize = word_of_nat (length (query_bytes q)), f_Payload = query_bytes q\<rparr>"
  have cls: "class_matches q ?oc"
    using assms(2) unfolding class_matches_def isValidOperation_def isReadOperation_def
      isWriteOperation_def by auto
  have enc: "encodable q" and op: "q_Operation q \<noteq> ''''" and size: "GQLQuery_size q \<le> MaxPayloadSize"
    using wellformed_encodable [OF assms(1) cls assms(3,4)] by simp_all
  have new: "NewQueryFrame q = Some f"
    using fills_fresh [OF fills_GQLQuery_write, of q]
    by (simp add: NewQueryFrame_def GQLQuery_Encode_def length_query_bytes f_def)
  have wire: "wire_frame f"
    using size by (simp add: wire_frame_def f_def length_query_bytes isValidOpcode_def)
  have "DecodeQuery (f_Payload f) '''' = Inr q"
    using DecodeQuery_query_bytes_self [OF enc, of "[]"] by (simp add: f_def)
  moreover have "unat (f_PayloadSize f) \<le> MaxPayloadSize"
    using size unat_payload_length [of "GQLQuery_size q"] by (simp add: f_def length_query_bytes)
  ultimately have "ValidateFrame f session = Inr (Some q)"
    using assms(1,5) cls unfolding ValidateFrame_Some_iff by (simp add: f_def)
  with new DecodeFrame_layout [OF wire] show ?thesis
    by (auto simp: Frame_Encode_layout)
qed

text \<open>
  C27. End to end: a well-formed query for a known operation, with credentials below the
  length limit of the format, always fits the frame limit, and if the session authorises it, the
  bytes the client sends are accepted by the server and yield exactly that query.
\<close>

theorem valid_request_accepted:
  assumes "query_wellformed q" "isValidOperation (q_Operation q)" "gomap (q_Fields q)"
    and "length (q_Credentials q) < 65536" "authorised session q"
  shows "\<exists>f data. NewQueryFrame q = Some f \<and> Frame_Encode f = Some data \<and> DecodeFrame data = Inr f \<and>
    ValidateFrame f session = Inr (Some q)"
  using assms by (rule request_accepted)

definition sample_session :: SessionInfo where
  "sample_session =
     \<lparr>s_IsUnlocked = True, s_ActiveHandle = ''mvk:test1234'', s_UserID = ''default'', s_HasRole = (\<lambda>r. False)\<rparr>"

lemma sample_wellformed: "query_wellformed sample_query"
  by (simp add: query_wellformed_def sample_query_def ident_string_def printable_string_def
      pair_wellformed_def Max_defs isIdentChar_def isPrintableRune_def)

theorem valid_request_accepted_witness:
  "\<exists>f data. NewQueryFrame sample_query = Some f \<and> Frame_Encode f = Some data \<and>
     DecodeFrame data = Inr f \<and> ValidateFrame f (Some sample_session) = Inr (Some sample_query)"
proof (rule valid_request_accepted [OF sample_wellformed])
  show "isValidOperation (q_Operation sample_query)"
    by (simp add: sample_query_def isValidOperation_def)
  show "gomap (q_Fields sample_query)" "length (q_Credentials sample_query) < 65536"
    by (simp_all add: sample_query_def gomap_def)
  show "authorised (Some sample_session) sample_query"
    by (simp add: authorised_def sample_session_def sample_query_def bytes_of_def)
qed

lemma validateQuery_order:
  assumes "set kvs = set (q_Fields q)" "length kvs = length (q_Fields q)"
    and "opcode \<in> {OpcodeQuery, OpcodeMutate}"
  shows "validateQuery (q\<lparr>q_Fields := kvs\<rparr>) opcode = None \<longleftrightarrow> validateQuery q opcode = None"
  using assms by (simp add: validateQuery_None_iff query_wellformed_def class_matches_def)

section \<open>Sanitising field keys\<close>

lemma ident_runes_from:
  "concat (map (\<lambda>(i, c). if isIdentChar c then [char_of c] else []) (runes_from i (map of_char s))) =
   filter (\<lambda>c. isIdentChar (of_char c)) s"
proof (induction i "map of_char s :: nat list" arbitrary: s rule: runes_from.induct)
  case (1 i)
  then show ?case by simp
next
  case (2 i c bs)
  then obtain ch t where s: "s = ch # t" "c = of_char ch" "bs = map of_char t"
    by (cases s) auto
  obtain r w where d: "decodeRune c bs = (r, w)" by fastforce
  have rest: "drop (w - 1) bs = map of_char (drop (w - 1) t)"
    by (simp add: s drop_map)
  note IH = "2.hyps"(1) [OF d [symmetric] refl rest]
  show ?case
  proof (cases "c < 0x80")
    case True
    with d have "r = c" "w = 1" by (simp_all add: decodeRune_ascii)
    with IH d s show ?thesis by simp
  next
    case False
    with d have r: "0x80 \<le> r" and skip: "\<forall>b \<in> set (take (w - 1) bs). 0x80 \<le> b"
      using decodeRune_big [of c bs r w] by auto
    have "filter (\<lambda>c. isIdentChar (of_char c)) (take (w - 1) t) = []"
      using skip isIdentChar_ascii by (auto simp: s take_map filter_empty_conv)
    then have "filter (\<lambda>c. isIdentChar (of_char c)) t =
        filter (\<lambda>c. isIdentChar (of_char c)) (drop (w - 1) t)"
      by (metis append_Nil append_take_drop_id filter_append)
    with IH d s r False show ?thesis
      by (simp add: isIdentChar_ascii drop_map)
  qed
qed

lemma space_not_ident: "isSpace c \<Longrightarrow> \<not> isIdentChar c"
  by (auto simp: isSpace_def isIdentChar_def)

lemma concat_map_dropWhile:
  "(\<And>x. P x \<Longrightarrow> f x = []) \<Longrightarrow> concat (map f (dropWhile P xs)) = concat (map f xs)"
  by (induction xs) auto

lemma concat_map_rev_dropWhile:
  "(\<And>x. P x \<Longrightarrow> f x = []) \<Longrightarrow> concat (map f (rev (dropWhile P (rev xs)))) = concat (map f xs)"
  by (induction xs rule: rev_induct) auto

text \<open>
  \<open>SanitizeFieldKey\<close> keeps exactly the identifier bytes of its input, in order: its
  result passes \<open>validateIdentifier\<close>, a key that already is an identifier is returned
  unchanged, and sanitising twice changes nothing more.
\<close>

theorem SanitizeFieldKey_filter:
  "SanitizeFieldKey key = filter (\<lambda>c. isIdentChar (of_char c)) key \<and>
   validateIdentifier name (SanitizeFieldKey key) = None \<and>
   SanitizeFieldKey (SanitizeFieldKey key) = SanitizeFieldKey key"
proof -
  have filt: "SanitizeFieldKey k = filter (\<lambda>c. isIdentChar (of_char c)) k" for k
    unfolding SanitizeFieldKey_def TrimSpace_def
    by (subst concat_map_rev_dropWhile concat_map_dropWhile, force dest: space_not_ident)+
      (simp add: runes_def ident_runes_from)
  show ?thesis
    by (simp add: filt validateIdentifier_None_iff ident_string_def)
qed

end
