(* ===== verification/Grim_GQL_Language.thy ===== *)
theory Grim_GQL_Language
  imports Grim_GQL_Types
begin

text \<open>
  The language of query payloads: which byte strings \<open>DecodeQuery\<close> of \<open>engine/gql/types.go\<close>
  accepts and what it reads from each of them. The encoder produces one payload per query; the
  decoder accepts more, and the theorem of this theory says exactly which.
\<close>

section \<open>Exact readers\<close>

lemma field_dec_exact:
  assumes "deserializeField d = Inr (s, n)"
  shows "length s < 65536 \<and> n = length (field_bytes s) \<and> (\<exists>r. d = field_bytes s @ r)"
proof -
  obtain v where v: "u16_of (take 2 d) = Some v" and le: "2 + unat v \<le> length d"
    and s: "s = string_of (take (unat v) (drop 2 d))" and n: "n = 2 + unat v"
    using assms by (rule deserializeField_InrE)
  obtain a b d' where d: "d = a # b # d'"
    using le by (cases d; cases "tl d") auto
  have len: "length s = unat v"
    using le s by simp
  have "be16 v = [a, b]"
    using v d by (intro be16_u16_of) simp
  moreover have "word_of_nat (length s) = v"
    by (simp add: len)
  ultimately have "d = field_bytes s @ drop (unat v) d'"
    using d s by (simp add: field_bytes_def)
  then show ?thesis
    using deserializeField_Inr [OF assms] by (auto simp: fieldSize_def)
qed

interpretation field_exact: exact_codec field_bytes deserializeField "\<lambda>s. length s < 65536"
  by unfold_locales (rule field_dec_exact)

text \<open>One read at an offset consumes exactly the encoding of what it returns.\<close>

lemma readField_iff:
  assumes "rest_at p off d"
  shows "readField name p off = Inr (s, off') \<longleftrightarrow>
    length s < 65536 \<and> off' = off + fieldSize s \<and> (\<exists>r. d = field_bytes s @ r)"
proof -
  have "readField name p off = Inr (s, off') \<longleftrightarrow> (\<exists>n. deserializeField d = Inr (s, n) \<and> off' = off + n)"
    using assms by (auto simp: readField_def slice_from_def rest_at_def split: sum.splits)
  then show ?thesis
    by (auto simp: field_exact.dec_iff)
qed

lemma readField_step:
  assumes "rest_at p off d" "readField name p off = Inr (s, off')"
  obtains r where "d = field_bytes s @ r" "rest_at p off' r" "length s < 65536"
  using assms rest_at_append [of p off "field_bytes s"] by (auto simp: readField_iff)

lemma readU32_step:
  assumes "rest_at p off d" "readU32 e p off = Inr (v, off')"
  obtains r where "d = be32 v @ r" "rest_at p off' r"
proof -
  have v: "u32_of d = Some v" "off' = off + 4"
    using assms by (auto simp: readU32_def rest_at_def split: if_splits option.splits)
  then obtain a b c e' r where d: "d = a # b # c # e' # r"
    by (cases d rule: u32_of.cases) auto
  have "be32 v = [a, b, c, e']"
    by (rule be32_u32_of) (use v d in simp)
  then have eq: "d = be32 v @ r"
    using d by simp
  show ?thesis
    by (rule that [OF eq]) (use v(2) assms(1) eq rest_at_append [of p off "be32 v" r] in simp)
qed

section \<open>Field entries\<close>

text \<open>The map after storing the entries in order: a later entry replaces an earlier one with its key.\<close>

definition store_pairs :: "(string, string) gomap \<Rightarrow> (string \<times> string) list \<Rightarrow> (string, string) gomap" where
  "store_pairs m ps = foldl (\<lambda>m (k, v). gomap_set m k v) m ps"

lemma store_pairs_simps [simp]:
  "store_pairs m [] = m" "store_pairs m ((k, v) # ps) = store_pairs (gomap_set m k v) ps"
  by (simp_all add: store_pairs_def)

lemma short_pairs_simps [simp]:
  "short_pairs []" "short_pairs ((k, v) # ps) \<longleftrightarrow> length k < 65536 \<and> length v < 65536 \<and> short_pairs ps"
  by (auto simp: short_pairs_def)

lemma decodeFields_step:
  assumes "rest_at p off d" "decodeFields i n p off acc = Inr (kvs, off')"
  shows "\<exists>ps r. length ps = n \<and> short_pairs ps \<and> d = pairs_bytes ps @ r \<and> rest_at p off' r \<and>
    kvs = store_pairs acc ps"
  using assms
proof (induction n arbitrary: i off acc d)
  case 0
  then show ?case
    by auto
next
  case (Suc n)
  from Suc.prems(2) obtain k kn v vn where
    k: "deserializeField (drop off p) = Inr (k, kn)" and
    v: "deserializeField (drop (off + kn) p) = Inr (v, vn)" and
    rec: "decodeFields (Suc i) n p (off + kn + vn) (gomap_set acc k v) = Inr (kvs, off')"
    by (auto simp: Let_def split: if_splits sum.splits)
  obtain r1 where r1: "d = field_bytes k @ r1" "length k < 65536" "kn = length (field_bytes k)"
    using k Suc.prems(1) by (auto simp: field_exact.dec_iff rest_at_def)
  then have at1: "rest_at p (off + kn) r1"
    using rest_at_append [of p off "field_bytes k" r1] Suc.prems(1) by simp
  then obtain r2 where r2: "r1 = field_bytes v @ r2" "length v < 65536" "vn = length (field_bytes v)"
    using v by (auto simp: field_exact.dec_iff rest_at_def)
  then have "rest_at p (off + kn + vn) r2"
    using rest_at_append [of p "off + kn" "field_bytes v" r2] at1 by simp
  from Suc.IH [OF this rec] obtain ps r where
    "length ps = n" "short_pairs ps" "r2 = pairs_bytes ps @ r" "rest_at p off' r"
    "kvs = store_pairs (gomap_set acc k v) ps"
    by blast
  with r1 r2 show ?case
    by (intro exI [of _ "(k, v) # ps"] exI [of _ r]) simp
qed

lemma decodeFields_pairs:
  assumes "rest_at p off (pairs_bytes ps @ r)" "short_pairs ps"
  shows "decodeFields i (length ps) p off acc = Inr (store_pairs acc ps, off + length (pairs_bytes ps))"
  using assms
proof (induction ps arbitrary: i off acc)
  case (Cons kv ps)
  obtain k v where kv: "kv = (k, v)" by fastforce
  have at_k: "rest_at p off (field_bytes k @ field_bytes v @ pairs_bytes ps @ r)"
    using Cons.prems(1) kv by simp
  note at_v = rest_at_append [OF at_k]
  note at_ps = rest_at_append [OF at_v]
  have len: "length k < 65536" "length v < 65536" "short_pairs ps"
    using Cons.prems(2) kv by simp_all
  have "deserializeField (drop off p) = Inr (k, fieldSize k)"
    "deserializeField (drop (off + fieldSize k) p) = Inr (v, fieldSize v)"
    using at_k at_v field.dec_enc [OF len(1)] field.dec_enc [OF len(2)] by (simp_all add: rest_at_def)
  moreover have "off < length p" "off + fieldSize k < length p"
    using rest_at_length [OF at_k] rest_at_length [OF at_v] by (simp_all add: fieldSize_def)
  ultimately show ?case
    using Cons.IH [OF at_ps len(3), of "Suc i" "gomap_set acc k v"] by (simp add: kv add.assoc)
qed simp

section \<open>The language\<close>

text \<open>
  What follows the two integers: nothing, which reads as no credentials, or the credentials
  and any further bytes.
\<close>

definition credentials_tail :: "byte list \<Rightarrow> byte list \<Rightarrow> bool" where
  "credentials_tail cr d \<longleftrightarrow>
     d = [] \<and> cr = [] \<or> length cr < 65536 \<and> (\<exists>junk. d = field_bytes (string_of cr) @ junk)"

lemma readCredentials_iff:
  assumes "rest_at p off d"
  shows "readCredentials p off = Inr cr \<longleftrightarrow> credentials_tail cr d"
proof (cases "d = []")
  case True
  then show ?thesis
    using assms by (auto simp: readCredentials_def credentials_tail_def rest_at_def field_bytes_def be16_def)
next
  case False
  then have "off < length p"
    using assms by (auto simp: rest_at_def)
  moreover have "(\<exists>s. length s < 65536 \<and> cr = bytes_of s \<and> (\<exists>r. d = field_bytes s @ r)) \<longleftrightarrow>
      length cr < 65536 \<and> (\<exists>r. d = field_bytes (string_of cr) @ r)"
    by (metis bytes_of_string_of length_string_of string_of_bytes_of)
  ultimately show ?thesis
    using False by (auto simp: readCredentials_def credentials_tail_def bindE_eq_Inr readField_iff [OF assms])
qed

definition payload_of ::
  "string \<Rightarrow> GQLQuery \<Rightarrow> (string \<times> string) list \<Rightarrow> byte list \<Rightarrow> byte list" where
  "payload_of oper q ps d =
     [word_of_nat (length ps)] @ field_bytes oper @ field_bytes (q_Namespace q) @
     field_bytes (q_EntryID q) @ field_bytes (q_Category q) @ field_bytes (q_Title q) @
     pairs_bytes ps @ be32 (q_Limit q) @ be32 (q_Offset q) @ d"

text \<open>The bounds of the format on the strings of a payload.\<close>

definition payload_bounds :: "string \<Rightarrow> GQLQuery \<Rightarrow> (string \<times> string) list \<Rightarrow> bool" where
  "payload_bounds oper q ps \<longleftrightarrow>
     length ps \<le> MaxFieldsCount \<and> short_pairs ps \<and> length oper < 65536 \<and> length (q_Namespace q) < 65536 \<and>
     length (q_EntryID q) < 65536 \<and> length (q_Category q) < 65536 \<and> length (q_Title q) < 65536"

lemma decoded_payload:
  assumes "DecodeQuery p op = Inr q"
  shows "\<exists>oper ps d. p = payload_of oper q ps d \<and> payload_bounds oper q ps \<and>
    credentials_tail (q_Credentials q) d \<and> q_Fields q = store_pairs [] ps \<and>
    q_Operation q = (if oper \<noteq> '''' then oper else op)"
  using assms
proof (rule DecodeQuery_InrE, goal_cases)
  case (1 s o1 ns o2 eid o3 cat o4 ti o5 kvs o6 li o7 os o8 cr)
  obtain c d0 where p: "p = c # d0"
    using 1(1) by (cases p) auto
  have at1: "rest_at p 1 d0"
    by (simp add: p rest_at_def)
  obtain d1 where d1: "d0 = field_bytes s @ d1" "rest_at p o1 d1" "length s < 65536"
    using readField_step [OF at1 1(3)] .
  obtain d2 where d2: "d1 = field_bytes ns @ d2" "rest_at p o2 d2" "length ns < 65536"
    using readField_step [OF d1(2) 1(4)] .
  obtain d3 where d3: "d2 = field_bytes eid @ d3" "rest_at p o3 d3" "length eid < 65536"
    using readField_step [OF d2(2) 1(5)] .
  obtain d4 where d4: "d3 = field_bytes cat @ d4" "rest_at p o4 d4" "length cat < 65536"
    using readField_step [OF d3(2) 1(6)] .
  obtain d5 where d5: "d4 = field_bytes ti @ d5" "rest_at p o5 d5" "length ti < 65536"
    using readField_step [OF d4(2) 1(7)] .
  obtain ps d6 where d6: "length ps = unat c" "short_pairs ps" "d5 = pairs_bytes ps @ d6" "rest_at p o6 d6"
    "kvs = store_pairs [] ps"
    using decodeFields_step [OF d5(2) 1(8)] by (auto simp: p)
  obtain d7 where d7: "d6 = be32 li @ d7" "rest_at p o7 d7"
    using readU32_step [OF d6(4) 1(9)] .
  obtain d8 where d8: "d7 = be32 os @ d8" "rest_at p o8 d8"
    using readU32_step [OF d7(2) 1(10)] .
  have "credentials_tail cr d8"
    using 1(11) readCredentials_iff [OF d8(2)] by simp
  moreover have "c = word_of_nat (length ps)" "length ps \<le> MaxFieldsCount"
    using d6(1) 1(2) by (simp_all add: p)
  ultimately show ?case
    using d1 d2 d3 d4 d5 d6 d7 d8 1(12) p
    by (intro exI [of _ s] exI [of _ ps] exI [of _ d8]) (simp add: payload_of_def payload_bounds_def)
qed

lemma payload_decodes:
  assumes "payload_bounds oper q ps" "credentials_tail (q_Credentials q) d" "q_Fields q = store_pairs [] ps"
    and "q_Operation q = (if oper \<noteq> '''' then oper else op)"
  shows "DecodeQuery (payload_of oper q ps d) op = Inr q"
proof -
  define p where "p = payload_of oper q ps d"
  have few: "(MaxFieldsCount < length ps) = False"
    and len: "length oper < 65536" "length (q_Namespace q) < 65536" "length (q_EntryID q) < 65536"
      "length (q_Category q) < 65536" "length (q_Title q) < 65536" "short_pairs ps"
    using assms(1) by (simp_all add: payload_bounds_def)
  have rf: "readField name p off = Inr (s, off + length (field_bytes s))"
    if "rest_at p off (field_bytes s @ r)" "length s < 65536" for name off s r
    using readField_at [OF that] by simp
  have ru: "readU32 e p off = Inr (v, off + length (be32 v))" if "rest_at p off (be32 v @ r)" for e off v r
    using readU32_at [OF that] by simp
  have a1: "rest_at p 1 (field_bytes oper @ field_bytes (q_Namespace q) @
     field_bytes (q_EntryID q) @ field_bytes (q_Category q) @ field_bytes (q_Title q) @
     pairs_bytes ps @ be32 (q_Limit q) @ be32 (q_Offset q) @ d)"
    by (simp add: rest_at_def p_def payload_of_def)
  note a2 = rest_at_append [OF a1] note a3 = rest_at_append [OF a2]
  note a4 = rest_at_append [OF a3] note a5 = rest_at_append [OF a4]
  note a6 = rest_at_append [OF a5] note a7 = rest_at_append [OF a6]
  note a8 = rest_at_append [OF a7] note a9 = rest_at_append [OF a8]
  note cr = iffD2 [OF readCredentials_iff [OF a9] assms(2)]
  have head: "unat (p ! 0) = length ps" "(length p < 1) = False"
    using few by (simp_all add: p_def payload_of_def MaxFieldsCount_def unat_of_nat)
  have "DecodeQuery p op = Inr \<lparr>q_Namespace = q_Namespace q, q_Operation = (if oper \<noteq> '''' then oper else op),
      q_EntryID = q_EntryID q, q_Category = q_Category q, q_Title = q_Title q, q_Fields = store_pairs [] ps,
      q_Credentials = q_Credentials q, q_Limit = q_Limit q, q_Offset = q_Offset q\<rparr>"
    unfolding DecodeQuery_def Let_def head(1)
    by (simp only: head(2) few rf [OF a1 len(1)] rf [OF a2 len(2)] rf [OF a3 len(3)] rf [OF a4 len(4)]
        rf [OF a5 len(5)] decodeFields_pairs [OF a6 len(6)] ru [OF a7] ru [OF a8] cr if_False bindE.simps
        prod.case)
  then show ?thesis
    using assms(3,4) by (simp add: p_def)
qed

text \<open>
  C5. The decoder accepts exactly this language: a count of at most 100, the operation, the four
  strings, as many key-value entries, the two integers, and then nothing or the credentials and
  any further bytes, with every string below 65536 bytes. It reads the last value of a repeated
  key, the given default for an empty operation, and no credentials when they are absent. Every
  other byte string is refused.
\<close>

theorem DecodeQuery_language:
  "DecodeQuery p op = Inr q \<longleftrightarrow>
     (\<exists>oper ps d. p = payload_of oper q ps d \<and> payload_bounds oper q ps \<and>
        credentials_tail (q_Credentials q) d \<and> q_Fields q = store_pairs [] ps \<and>
        q_Operation q = (if oper \<noteq> '''' then oper else op))"
  using decoded_payload payload_decodes by blast

end
