(* ===== verification/Grim_JSON.thy ===== *)
theory Grim_JSON
  imports Grim_Prelude "HOL-Library.List_Lexorder" "HOL-Library.Char_ord"
begin

text \<open>
  \<open>json.Marshal\<close> of the Go standard library, as far as the engine uses it: text, integers, truth
  values, lists, string maps and structs, written without white space, with the HTML-safe escapes
  that \<open>Marshal\<close> applies. Beside it stands a reader of such documents, the reference for what a
  client gets: it is not code of the repository.
\<close>

section \<open>Text\<close>

abbreviation quote_char :: char where "quote_char \<equiv> CHR 0x22"
abbreviation backslash :: char where "backslash \<equiv> CHR 0x5C"

text \<open>How an ASCII character is written inside a string.\<close>

definition json_ascii :: "char \<Rightarrow> string" where
  "json_ascii c =
     (let b = of_char c :: nat in
      if c = quote_char \<or> c = backslash then [backslash, c]
      else if c = CHR 0x08 then [backslash, CHR ''b'']
      else if c = CHR 0x0C then [backslash, CHR ''f'']
      else if c = CHR 0x0A then [backslash, CHR ''n'']
      else if c = CHR 0x0D then [backslash, CHR ''r'']
      else if c = CHR 0x09 then [backslash, CHR ''t'']
      else if b < 0x20 \<or> c = CHR ''<'' \<or> c = CHR ''>'' \<or> c = CHR ''&''
      then backslash # ''u00'' @ [digit (b div 16), digit (b mod 16)]
      else [c])"

text \<open>
  The body of a string: a byte that starts no well-formed UTF-8 sequence becomes the escape of
  U+FFFD, the two line separators of JavaScript are escaped, everything else is copied.
\<close>

function json_chars :: "string \<Rightarrow> string" where
  "json_chars [] = ''''"
| "json_chars (c # cs) =
     (if of_char c < (0x80 :: nat) then json_ascii c @ json_chars cs
      else
        let (r, w) = decodeRune (of_char c) (map of_char cs) in
        if r = runeError \<and> w = 1 then backslash # ''ufffd'' @ json_chars cs
        else if r = 0x2028 \<or> r = 0x2029 then backslash # ''u202'' @ [digit (r mod 16)] @ json_chars (drop (w - 1) cs)
        else c # take (w - 1) cs @ json_chars (drop (w - 1) cs))"
  by pat_completeness auto
termination
  by (relation "measure length") auto

definition json_quote :: "string \<Rightarrow> string" where
  "json_quote s = quote_char # json_chars s @ [quote_char]"

text \<open>Well-formed UTF-8: no byte of the text is replaced.\<close>

function valid_text :: "string \<Rightarrow> bool" where
  "valid_text [] = True"
| "valid_text (c # cs) =
     (let (r, w) = decodeRune (of_char c) (map of_char cs)
      in \<not> (r = runeError \<and> w = 1) \<and> valid_text (drop (w - 1) cs))"
  by pat_completeness auto
termination
  by (relation "measure length") auto

section \<open>Documents\<close>

datatype json = JBool bool | JInt int | JStr string | JArr "json list" | JObj "(string \<times> json) list"

fun commas :: "string list \<Rightarrow> string" where
  "commas [] = ''''"
| "commas [x] = x"
| "commas (x # y # xs) = x @ '','' @ commas (y # xs)"

fun render :: "json \<Rightarrow> string" where
  "render (JBool b) = (if b then ''true'' else ''false'')"
| "render (JInt i) = show_int i"
| "render (JStr s) = json_quote s"
| "render (JArr xs) = ''['' @ commas (map render xs) @ '']''"
| "render (JObj kvs) = ''{'' @ commas (map (\<lambda>kv. json_quote (fst kv) @ '':'' @ render (snd kv)) kvs) @ ''}''"

text \<open>A string map is written with its keys in byte order; a nil or empty list is never written here.\<close>

definition sorted_pairs :: "(string, string) gomap \<Rightarrow> (string \<times> string) list" where
  "sorted_pairs m = sort_key fst m"

definition json_map :: "(string, string) gomap \<Rightarrow> json" where
  "json_map m = JObj (map (\<lambda>(k, v). (k, JStr v)) (sorted_pairs m))"

text \<open>Struct fields with and without \<open>omitempty\<close>.\<close>

definition always :: "string \<Rightarrow> json \<Rightarrow> (string \<times> json) list" where
  "always k v = [(k, v)]"

definition omitempty :: "bool \<Rightarrow> string \<Rightarrow> json \<Rightarrow> (string \<times> json) list" where
  "omitempty isEmpty k v = (if isEmpty then [] else [(k, v)])"

section \<open>The reader\<close>

text \<open>The UTF-8 bytes of a code point of the basic plane.\<close>

definition utf8 :: "nat \<Rightarrow> string" where
  "utf8 r =
     (if r < 0x80 then [char_of r]
      else if r < 0x800 then [char_of (0xC0 + r div 64), char_of (0x80 + r mod 64)]
      else [char_of (0xE0 + r div 4096), char_of (0x80 + r div 64 mod 64), char_of (0x80 + r mod 64)])"

definition simple_escape :: "char \<Rightarrow> string option" where
  "simple_escape e =
     (if e \<in> {quote_char, backslash, CHR ''/''} then Some [e]
      else map_of [(CHR ''b'', [CHR 0x08]), (CHR ''f'', [CHR 0x0C]), (CHR ''n'', [CHR 0x0A]),
        (CHR ''r'', [CHR 0x0D]), (CHR ''t'', [CHR 0x09])] e)"

definition hex4 :: "char \<Rightarrow> char \<Rightarrow> char \<Rightarrow> char \<Rightarrow> nat option" where
  "hex4 a b c d =
     Option.bind (hex_value a) (\<lambda>a. Option.bind (hex_value b) (\<lambda>b. Option.bind (hex_value c) (\<lambda>c.
       map_option (\<lambda>d. a * 4096 + b * 256 + c * 16 + d) (hex_value d))))"

definition prepend :: "string \<Rightarrow> (string \<times> string) option \<Rightarrow> (string \<times> string) option" where
  "prepend s = map_option (\<lambda>(t, rest). (s @ t, rest))"

fun read_escape :: "string \<Rightarrow> (string \<times> string) option" where
  "read_escape (e # cs) =
     (if e = CHR ''u'' then
        (case cs of
           a # b # c # d # rest \<Rightarrow> map_option (\<lambda>r. (utf8 r, rest)) (hex4 a b c d)
         | _ \<Rightarrow> None)
      else map_option (\<lambda>s. (s, cs)) (simple_escape e))"
| "read_escape [] = None"

lemma read_escape_shorter: "read_escape cs = Some (s, rest) \<Longrightarrow> length rest < length cs"
  by (induction cs rule: read_escape.induct) (auto split: if_splits list.splits)

text \<open>The characters up to the closing quote, and what follows it.\<close>

function read_chars :: "string \<Rightarrow> (string \<times> string) option" where
  "read_chars [] = None"
| "read_chars (c # cs) =
     (if c = quote_char then Some ([], cs)
      else if c = backslash then
        (case read_escape cs of None \<Rightarrow> None | Some (s, rest) \<Rightarrow> prepend s (read_chars rest))
      else if of_char c < (0x20 :: nat) then None
      else prepend [c] (read_chars cs))"
  by pat_completeness auto
termination
  by (relation "measure length") (auto dest: read_escape_shorter)

section \<open>Reading text back\<close>

lemma prepend_Some [simp]: "prepend s (Some (t, rest)) = Some (s @ t, rest)"
  by (simp add: prepend_def)

text \<open>One written ASCII character is read back as itself.\<close>

lemma digit_hex: "n < 16 \<Longrightarrow> hex_value (digit n) = Some n"
  by (rule hex_value_digit)

lemma read_ascii:
  assumes "of_char c < (0x80 :: nat)"
  shows "read_chars (json_ascii c @ cs) = prepend [c] (read_chars cs)"
proof (cases "json_ascii c = backslash # ''u00'' @ [digit (of_char c div 16), digit (of_char c mod 16)]")
  case True
  have "(of_char c :: nat) div 16 < 16"
    using assms by simp
  then have "hex4 CHR ''0'' CHR ''0'' (digit (of_char c div 16)) (digit (of_char c mod 16)) = Some (of_char c)"
    by (simp add: hex4_def digit_hex) (simp add: hex_value_def)
  with True assms show ?thesis
    by (simp add: utf8_def)
next
  case False
  then show ?thesis
    by (auto simp: json_ascii_def simple_escape_def Let_def split: if_splits)
qed

text \<open>The two line separators are the only sequences with their code points.\<close>

lemma decodeRune_cases:
  assumes "decodeRune c bs = (r, w)" "0x80 \<le> c"
  obtains (error) "r = runeError" "w = 1"
  | (two) b1 rest where "bs = b1 # rest" "w = 2" "r < 0x800" "0x80 \<le> b1" "b1 < 0xC0"
  | (three) b1 b2 rest where "bs = b1 # b2 # rest" "w = 3" "r = (c - 0xE0) * 4096 + (b1 - 0x80) * 64 + (b2 - 0x80)"
      "0xE0 \<le> c" "cont 0x80 0xBF b1" "cont 0x80 0xBF b2"
  | (four) b1 b2 b3 rest where "bs = b1 # b2 # b3 # rest" "w = 4" "0x10000 \<le> r"
proof -
  have four: "0x10000 \<le> (c - 0xF0) * 262144 + (b1 - 0x80) * 4096 + (b2 - 0x80) * 64 + (b3 - 0x80)"
    if "cont (if c = 0xF0 then 0x90 else 0x80) hi b1" "0xF0 \<le> c" for b1 b2 b3 hi :: nat
    using that by (cases "c = 0xF0") (auto simp: cont_def)
  consider "c < 0xC2 \<or> 0xF4 < c" | "0xC2 \<le> c" "c < 0xE0" | "0xE0 \<le> c" "c < 0xF0" | "0xF0 \<le> c" "c \<le> 0xF4"
    by linarith
  then show ?thesis
  proof cases
    case 1
    with assms show ?thesis
      by (intro error) (auto simp: decodeRune_def)
  next
    case 2
    with assms error two show ?thesis
      by (auto simp: decodeRune_def cont_def split: list.splits if_splits)
  next
    case 3
    with assms error three show ?thesis
      by (auto simp: decodeRune_def cont_def split: list.splits if_splits)
  next
    case 4
    with assms error four that(4) show ?thesis
      by (auto simp: decodeRune_def split: list.splits if_splits)
  qed
qed

lemma separator_bytes:
  assumes "decodeRune c bs = (r, w)" "r = 0x2028 \<or> r = 0x2029" "0x80 \<le> c"
  shows "w = 3 \<and> (\<exists>rest. c # bs = 0xE2 # 0x80 # (0x80 + r mod 64) # rest)"
proof -
  have bytes: "c = 0xE2 \<and> b1 = 0x80 \<and> b2 = 0x80 + r mod 64"
    if "(c - 0xE0) * 4096 + (b1 - 0x80) * 64 + (b2 - 0x80) = r" "0xE0 \<le> c" "cont 0x80 0xBF b1" "cont 0x80 0xBF b2" for b1 b2
  proof -
    define x y z where "x = c - 0xE0" "y = b1 - 0x80" "z = b2 - 0x80"
    have bounds: "y < 64" "z < 64" "c = x + 0xE0" "b1 = y + 0x80" "b2 = z + 0x80" and sum: "x * 4096 + y * 64 + z = r"
      using that by (auto simp: x_y_z_def cont_def)
    have "x \<le> 2" "2 \<le> x"
      using bounds sum assms(2) by (elim disjE; linarith)+
    then have "x = 2"
      by simp
    moreover have "y \<le> 0"
      using bounds sum assms(2) \<open>x = 2\<close> by (elim disjE; linarith)
    ultimately show ?thesis
      using bounds sum assms(2) by auto
  qed
  from assms(1,3) show ?thesis
  proof (cases rule: decodeRune_cases)
    case (three b1 b2 rest)
    note b = bytes [OF three(3) [symmetric] three(4-6)]
    show ?thesis
      using b three(1,2) by simp
  qed (use assms(2) in \<open>auto simp: runeError_def\<close>)
qed

text \<open>Bytes outside ASCII are copied by the reader.\<close>

lemma read_high_bytes:
  "\<forall>c \<in> set hs. (0x80 :: nat) \<le> of_char c \<Longrightarrow> read_chars (hs @ cs) = prepend hs (read_chars cs)"
proof (induction hs)
  case Nil
  then show ?case
    by (cases "read_chars cs") (auto simp: prepend_def)
next
  case (Cons h hs)
  then have "h \<noteq> quote_char" "h \<noteq> backslash" "\<not> of_char h < (0x20 :: nat)"
    by auto
  with Cons show ?case
    by (cases "read_chars cs") (auto simp: prepend_def)
qed

lemma read_separator:
  assumes "r = 0x2028 \<or> r = 0x2029"
  shows "read_chars (backslash # ''u202'' @ [digit (r mod 16)] @ cs) =
    prepend [char_of (0xE2 :: nat), char_of (0x80 :: nat), char_of (0x80 + r mod 64)] (read_chars cs)"
  using assms by (auto simp: hex4_def hex_value_def digit_def utf8_def)

lemma read_json_chars:
  "valid_text s \<Longrightarrow> read_chars (json_chars s @ quote_char # rest) = Some (s, rest)"
proof (induction s rule: json_chars.induct)
  case (2 c cs)
  show ?case
  proof (cases "of_char c < (0x80 :: nat)")
    case True
    moreover from this "2.prems" have "valid_text cs"
      by (simp add: decodeRune_ascii)
    ultimately show ?thesis
      using "2.IH"(1) by (simp add: read_ascii)
  next
    case False
    obtain r w where d: "decodeRune (of_char c) (map of_char cs) = (r, w)"
      by fastforce
    then have ok: "\<not> (r = runeError \<and> w = 1)" "valid_text (drop (w - 1) cs)"
      using "2.prems" by simp_all
    have split: "cs = take (w - 1) cs @ drop (w - 1) cs"
      by simp
    have high: "\<forall>x \<in> set (c # take (w - 1) cs). (0x80 :: nat) \<le> of_char x"
      using decodeRune_big [OF _ d] False by (auto simp: take_map)
    show ?thesis
    proof (cases "r = 0x2028 \<or> r = 0x2029")
      case True
      with separator_bytes [OF d] False obtain bs where w: "w = 3"
        and bytes: "of_char c # map of_char cs = 0xE2 # 0x80 # (0x80 + r mod 64) # bs"
        by auto
      have "c # cs = map char_of (of_char c # map of_char cs :: nat list)"
        by (simp add: comp_def)
      also have "\<dots> = [char_of (0xE2 :: nat), char_of (0x80 :: nat), char_of (0x80 + r mod 64)] @ map char_of bs"
        unfolding bytes by simp
      finally have whole: "c # cs = [char_of (0xE2 :: nat), char_of (0x80 :: nat), char_of (0x80 + r mod 64)] @ map char_of bs" .
      then have tail: "drop (w - 1) cs = map char_of bs"
        by (simp add: w)
      have IH: "read_chars (json_chars (map char_of bs) @ quote_char # rest) = Some (map char_of bs, rest)"
        using "2.IH"(3) [OF False d [symmetric] refl ok(1) True ok(2)] tail by simp
      have "json_chars (c # cs) = backslash # ''u202'' @ [digit (r mod 16)] @ json_chars (map char_of bs)"
        using d False ok(1) True tail by (simp only: json_chars.simps if_False prod.case Let_def if_True)
      then have "read_chars (json_chars (c # cs) @ quote_char # rest) =
          read_chars (backslash # ''u202'' @ [digit (r mod 16)] @ json_chars (map char_of bs) @ quote_char # rest)"
        by simp
      also have "\<dots> = Some (c # cs, rest)"
        unfolding read_separator [OF True] IH whole by simp
      finally show ?thesis .
    next
      case False
      have "read_chars ((c # take (w - 1) cs) @ json_chars (drop (w - 1) cs) @ quote_char # rest) =
          Some (c # take (w - 1) cs @ drop (w - 1) cs, rest)"
        using "2.IH"(4) [OF \<open>\<not> of_char c < 0x80\<close> d [symmetric] refl ok(1) False ok(2)]
        by (subst read_high_bytes [OF high]) simp
      moreover have "json_chars (c # cs) = (c # take (w - 1) cs) @ json_chars (drop (w - 1) cs)"
        using d ok(1) False \<open>\<not> of_char c < 0x80\<close>
        by (simp only: json_chars.simps if_False prod.case Let_def append_Cons)
      ultimately show ?thesis
        by (metis append.assoc append_take_drop_id)
    qed
  qed
qed simp

section \<open>Reading documents back\<close>

text \<open>The fuel bounds the number of nested and successive values; the length of the text is enough.\<close>

fun read_digits :: "string \<Rightarrow> nat \<Rightarrow> nat \<times> string" where
  "read_digits (c # cs) n =
     (if is_digit c then read_digits cs (n * 10 + (of_char c - 48)) else (n, c # cs))"
| "read_digits [] n = (n, [])"

definition starts :: "string \<Rightarrow> string \<Rightarrow> string option" where
  "starts p s = (if take (length p) s = p then Some (drop (length p) s) else None)"

definition read_scalar :: "string \<Rightarrow> (json \<times> string) option" where
  "read_scalar s =
     (case s of
        [] \<Rightarrow> None
      | c # cs \<Rightarrow>
          if c = quote_char then map_option (\<lambda>(t, rest). (JStr t, rest)) (read_chars cs)
          else if c = CHR ''t'' then map_option (\<lambda>rest. (JBool True, rest)) (starts ''true'' s)
          else if c = CHR ''f'' then map_option (\<lambda>rest. (JBool False, rest)) (starts ''false'' s)
          else if c = CHR ''-'' then (case read_digits cs 0 of (n, rest) \<Rightarrow> Some (JInt (- int n), rest))
          else if is_digit c then (case read_digits s 0 of (n, rest) \<Rightarrow> Some (JInt (int n), rest))
          else None)"

text \<open>A key with its colon, and the separator after an element.\<close>

definition read_key :: "string \<Rightarrow> (string \<times> string) option" where
  "read_key s =
     (case s of
        c # cs \<Rightarrow>
          if c = quote_char then
            (case read_chars cs of
               Some (k, d # rest) \<Rightarrow> if d = CHR '':'' then Some (k, rest) else None
             | _ \<Rightarrow> None)
          else None
      | [] \<Rightarrow> None)"

fun read_value :: "nat \<Rightarrow> string \<Rightarrow> (json \<times> string) option"
and read_elems :: "nat \<Rightarrow> string \<Rightarrow> (json list \<times> string) option"
and read_members :: "nat \<Rightarrow> string \<Rightarrow> ((string \<times> json) list \<times> string) option" where
  "read_value 0 s = None"
| "read_value (Suc n) s =
     (case s of
        c # d # rest \<Rightarrow>
          if c = CHR ''['' then
            (if d = CHR '']'' then Some (JArr [], rest)
             else map_option (\<lambda>(xs, rest). (JArr xs, rest)) (read_elems n (d # rest)))
          else if c = CHR ''{'' then
            (if d = CHR ''}'' then Some (JObj [], rest)
             else map_option (\<lambda>(kvs, rest). (JObj kvs, rest)) (read_members n (d # rest)))
          else read_scalar s
      | _ \<Rightarrow> read_scalar s)"
| "read_elems 0 s = None"
| "read_elems (Suc n) s =
     (case read_value n s of
        Some (x, d # rest) \<Rightarrow>
          if d = CHR '']'' then Some ([x], rest)
          else if d = CHR '','' then map_option (\<lambda>(xs, rest). (x # xs, rest)) (read_elems n rest)
          else None
      | _ \<Rightarrow> None)"
| "read_members 0 s = None"
| "read_members (Suc n) s =
     (case read_key s of
        None \<Rightarrow> None
      | Some (k, s) \<Rightarrow>
          (case read_value n s of
             Some (x, d # rest) \<Rightarrow>
               if d = CHR ''}'' then Some ([(k, x)], rest)
               else if d = CHR '','' then map_option (\<lambda>(kvs, rest). ((k, x) # kvs, rest)) (read_members n rest)
               else None
           | _ \<Rightarrow> None))"

definition read_json :: "string \<Rightarrow> json option" where
  "read_json s = (case read_value (length s) s of Some (j, []) \<Rightarrow> Some j | _ \<Rightarrow> None)"

lemma read_digits_all:
  assumes "\<forall>c \<in> set ds. is_digit c" "rest = [] \<or> \<not> is_digit (hd rest)"
  shows "read_digits (ds @ rest) n = (foldl (\<lambda>v c. v * 10 + (of_char c - 48)) n ds, rest)"
  using assms
proof (induction ds arbitrary: n)
  case Nil
  then show ?case
    by (cases rest) auto
qed simp

lemma read_show_nat:
  "rest = [] \<or> \<not> is_digit (hd rest) \<Longrightarrow> read_digits (show_nat n @ rest) 0 = (n, rest)"
  using read_digits_all [of "show_nat n" rest 0] show_nat_is_digit by (auto simp: show_nat_read)

fun json_ok :: "json \<Rightarrow> bool" where
  "json_ok (JBool b) = True"
| "json_ok (JInt i) = True"
| "json_ok (JStr s) = valid_text s"
| "json_ok (JArr xs) = list_all json_ok xs"
| "json_ok (JObj kvs) = list_all (\<lambda>kv. valid_text (fst kv) \<and> json_ok (snd kv)) kvs"

fun list_fuel :: "nat list \<Rightarrow> nat" where
  "list_fuel [] = 0"
| "list_fuel (n # ns) = Suc (max n (list_fuel ns))"

fun fuel :: "json \<Rightarrow> nat" where
  "fuel (JArr xs) = Suc (list_fuel (map fuel xs))"
| "fuel (JObj kvs) = Suc (list_fuel (map (\<lambda>kv. fuel (snd kv)) kvs))"
| "fuel _ = 1"

definition ends :: "string \<Rightarrow> bool" where
  "ends rest \<longleftrightarrow> rest = [] \<or> \<not> is_digit (hd rest)"

lemma show_nat_first: "\<exists>c cs. show_nat n = c # cs \<and> is_digit c"
  using show_nat_is_digit [of _ n] by (cases "show_nat n") auto

lemma digit_not: "is_digit c \<Longrightarrow> c \<noteq> quote_char \<and> c \<noteq> CHR ''t'' \<and> c \<noteq> CHR ''f'' \<and> c \<noteq> CHR ''-'' \<and>
    c \<noteq> CHR ''['' \<and> c \<noteq> CHR ''{'' \<and> c \<noteq> CHR '']'' \<and> c \<noteq> CHR ''}''"
  by (auto simp: is_digit_def)

lemma read_scalar_int:
  assumes "ends rest"
  shows "read_scalar (show_int i @ rest) = Some (JInt i, rest)"
proof (cases "i < 0")
  case True
  then show ?thesis
    using assms by (simp add: read_scalar_def show_int_def read_show_nat ends_def)
next
  case False
  obtain c cs where c: "show_nat (nat i) = c # cs" "is_digit c"
    using show_nat_first by blast
  have "read_digits (show_nat (nat i) @ rest) 0 = (nat i, rest)"
    using assms by (simp add: read_show_nat ends_def)
  with c digit_not [OF c(2)] False show ?thesis
    by (simp add: read_scalar_def show_int_def)
qed

lemma read_scalar_string:
  "valid_text s \<Longrightarrow> read_scalar (json_quote s @ rest) = Some (JStr s, rest)"
  by (simp add: read_scalar_def json_quote_def read_json_chars)

lemma read_key_quote: "valid_text k \<Longrightarrow> read_key (json_quote k @ CHR '':'' # rest) = Some (k, rest)"
  by (simp add: read_key_def json_quote_def read_json_chars)

lemma read_value_scalar:
  "s \<noteq> [] \<Longrightarrow> hd s \<noteq> CHR ''['' \<Longrightarrow> hd s \<noteq> CHR ''{'' \<Longrightarrow> read_value (Suc n) s = read_scalar s"
  by (auto split: list.split)

lemma hd_show_int: "show_int i @ rest \<noteq> [] \<and> hd (show_int i @ rest) \<noteq> CHR ''['' \<and> hd (show_int i @ rest) \<noteq> CHR ''{'' \<and>
    hd (show_int i @ rest) \<noteq> CHR '']''"
  using show_nat_first [of "nat i"] digit_not by (auto simp: show_int_def)

lemma hd_render: "render j \<noteq> [] \<and> hd (render j) \<noteq> CHR '']'' \<and> hd (render j) \<noteq> CHR ''}''"
proof (cases j)
  case (JInt i)
  then show ?thesis
    using show_nat_first [of "nat i"] digit_not by (auto simp: show_int_def)
qed (auto simp: json_quote_def)

abbreviation reads :: "json \<Rightarrow> bool" where
  "reads j \<equiv> \<forall>n rest. fuel j \<le> n \<longrightarrow> ends rest \<longrightarrow> read_value n (render j @ rest) = Some (j, rest)"

lemma read_elems_commas:
  assumes "\<forall>x \<in> set xs. reads x" "xs \<noteq> []" "list_fuel (map fuel xs) \<le> n"
  shows "read_elems n (commas (map render xs) @ CHR '']'' # rest) = Some (xs, rest)"
  using assms
proof (induction xs arbitrary: n)
  case (Cons x xs)
  then obtain m where n: "n = Suc m" "fuel x \<le> m" "list_fuel (map fuel xs) \<le> m"
    by (cases n) auto
  show ?case
  proof (cases xs)
    case Nil
    then show ?thesis
      using Cons.prems n by (simp add: ends_def is_digit_def)
  next
    case (Cons y ys)
    have "read_elems m (commas (map render xs) @ CHR '']'' # rest) = Some (xs, rest)"
      using Cons.IH [of m] Cons.prems n Cons by simp
    moreover have "read_value m (render x @ CHR '','' # commas (map render xs) @ CHR '']'' # rest) =
        Some (x, CHR '','' # commas (map render xs) @ CHR '']'' # rest)"
      using Cons.prems n by (simp add: ends_def is_digit_def)
    ultimately show ?thesis
      using n Cons by simp
  qed
qed simp

lemma read_members_commas:
  assumes "\<forall>kv \<in> set kvs. valid_text (fst kv) \<and> reads (snd kv)" "kvs \<noteq> []"
    and "list_fuel (map (\<lambda>kv. fuel (snd kv)) kvs) \<le> n"
  shows "read_members n (commas (map (\<lambda>kv. json_quote (fst kv) @ '':'' @ render (snd kv)) kvs) @ CHR ''}'' # rest) = Some (kvs, rest)"
  using assms
proof (induction kvs arbitrary: n)
  case (Cons kv kvs)
  let ?text = "\<lambda>kvs. commas (map (\<lambda>kv. json_quote (fst kv) @ '':'' @ render (snd kv)) kvs) @ CHR ''}'' # rest"
  obtain m where n: "n = Suc m" "fuel (snd kv) \<le> m" "list_fuel (map (\<lambda>kv. fuel (snd kv)) kvs) \<le> m"
    using Cons.prems by (cases n) auto
  show ?case
  proof (cases kvs)
    case Nil
    then show ?thesis
      using Cons.prems n by (simp add: read_key_quote ends_def is_digit_def)
  next
    case (Cons kv' kvs')
    have "read_members m (?text kvs) = Some (kvs, rest)"
      using Cons.IH [of m] Cons.prems n Cons by simp
    moreover have "read_value m (render (snd kv) @ CHR '','' # ?text kvs) = Some (snd kv, CHR '','' # ?text kvs)"
      using Cons.prems n by (simp add: ends_def is_digit_def)
    ultimately show ?thesis
      using Cons.prems n Cons by (simp add: read_key_quote)
  qed
qed simp

lemma read_render: "json_ok j \<Longrightarrow> reads j"
proof (induction j)
  case (JBool b)
  show ?case
  proof (intro allI impI)
    fix n rest assume "fuel (JBool b) \<le> n"
    then obtain m where "n = Suc m"
      by (cases n) auto
    then show "read_value n (render (JBool b) @ rest) = Some (JBool b, rest)"
      by (cases b) (simp_all add: read_scalar_def starts_def)
  qed
next
  case (JInt i)
  show ?case
  proof (intro allI impI)
    fix n rest assume "fuel (JInt i) \<le> n" and e: "ends rest"
    then obtain m where "n = Suc m"
      by (cases n) auto
    then show "read_value n (render (JInt i) @ rest) = Some (JInt i, rest)"
      using read_scalar_int [OF e, of i] hd_show_int [of i rest]
      by (simp only: render.simps read_value_scalar simp_thms)
  qed
next
  case (JStr s)
  show ?case
  proof (intro allI impI)
    fix n rest assume "fuel (JStr s) \<le> n"
    then obtain m where "n = Suc m"
      by (cases n) auto
    moreover have "json_quote s @ rest \<noteq> []" "hd (json_quote s @ rest) = quote_char"
      by (simp_all add: json_quote_def)
    ultimately show "read_value n (render (JStr s) @ rest) = Some (JStr s, rest)"
      using read_scalar_string [of s rest] JStr read_value_scalar [of "json_quote s @ rest" m]
      by simp
  qed
next
  case (JArr xs)
  show ?case
  proof (intro allI impI)
    fix n rest assume "fuel (JArr xs) \<le> n"
    then obtain m where m: "n = Suc m" "list_fuel (map fuel xs) \<le> m"
      by (cases n) auto
    show "read_value n (render (JArr xs) @ rest) = Some (JArr xs, rest)"
    proof (cases xs)
      case (Cons x ys)
      obtain c cs where c: "commas (map render xs) = c # cs" "c \<noteq> CHR '']''"
        using hd_render [of x] Cons by (cases "render x"; cases ys) auto
      have "read_elems m (commas (map render xs) @ CHR '']'' # rest) = Some (xs, rest)"
        using JArr m(2) Cons by (intro read_elems_commas) (auto simp: list_all_iff)
      with c m(1) show ?thesis
        by simp
    qed (simp add: m(1))
  qed
next
  case (JObj kvs)
  show ?case
  proof (intro allI impI)
    fix n rest assume "fuel (JObj kvs) \<le> n"
    then obtain m where m: "n = Suc m" "list_fuel (map (\<lambda>kv. fuel (snd kv)) kvs) \<le> m"
      by (cases n) auto
    show "read_value n (render (JObj kvs) @ rest) = Some (JObj kvs, rest)"
    proof (cases kvs)
      case (Cons kv ys)
      let ?t = "commas (map (\<lambda>kv. json_quote (fst kv) @ '':'' @ render (snd kv)) kvs)"
      obtain cs where c: "?t = quote_char # cs"
        using Cons by (cases ys) (auto simp: json_quote_def)
      have "\<forall>kv \<in> set kvs. valid_text (fst kv) \<and> reads (snd kv)"
        using JObj by (fastforce simp: list_all_iff snds.simps)
      then have "read_members m (?t @ CHR ''}'' # rest) = Some (kvs, rest)"
        using m(2) Cons by (intro read_members_commas) auto
      with c m(1) show ?thesis
        by simp
    qed (simp add: m(1))
  qed
qed

lemma list_fuel_commas:
  "(\<forall>x \<in> set xs. f x \<le> length (g x)) \<Longrightarrow> list_fuel (map f xs) \<le> Suc (length (commas (map g xs)))"
proof (induction xs)
  case (Cons x xs)
  then show ?case
    by (cases xs) auto
qed simp

lemma fuel_le_render: "fuel j \<le> length (render j)"
proof (induction j)
  case (JBool b)
  then show ?case
    by (cases b) simp_all
next
  case (JInt i)
  then show ?case
    using hd_render [of "JInt i"] by (simp add: Suc_le_eq)
next
  case (JStr s)
  then show ?case
    by (simp add: json_quote_def)
next
  case (JArr xs)
  then show ?case
    using list_fuel_commas [of xs fuel render] by simp
next
  case (JObj kvs)
  then have "\<forall>kv \<in> set kvs. fuel (snd kv) \<le> length (json_quote (fst kv) @ '':'' @ render (snd kv))"
    by (fastforce simp: snds.simps intro: le_SucI trans_le_add2)
  then show ?case
    using list_fuel_commas [of kvs "\<lambda>kv. fuel (snd kv)" "\<lambda>kv. json_quote (fst kv) @ '':'' @ render (snd kv)"] by simp
qed

text \<open>Every document whose texts are well-formed UTF-8 is recovered from what \<open>Marshal\<close> writes.\<close>

lemma read_json_render: "json_ok j \<Longrightarrow> read_json (render j) = Some j"
  using read_render [of j] fuel_le_render [of j] by (simp add: read_json_def ends_def)

lemma set_sorted_pairs [simp]: "set (sorted_pairs m) = set m"
  by (simp add: sorted_pairs_def)

lemma gomap_sorted_pairs [simp]: "gomap m \<Longrightarrow> gomap (sorted_pairs m)"
  by (simp add: gomap_def sorted_pairs_def distinct_map)

lemma map_of_sorted_pairs [simp]: "gomap m \<Longrightarrow> map_of (sorted_pairs m) = map_of m"
  using gomap_sorted_pairs [of m] by (simp add: gomap_def map_of_inject_set)

lemma json_ok_map: "(\<forall>(k, v) \<in> set m. valid_text k \<and> valid_text v) \<Longrightarrow> json_ok (json_map m)"
  by (auto simp: json_map_def list_all_iff)

section \<open>ASCII text is well formed\<close>

lemma valid_text_ascii: "\<forall>c \<in> set s. of_char c < (0x80 :: nat) \<Longrightarrow> valid_text s"
proof (induction s rule: valid_text.induct)
  case (2 c cs)
  then show ?case
    by (simp add: decodeRune_ascii runeError_def)
qed simp

section \<open>Filling structs\<close>

text \<open>Decoding into the same structs: absent keys leave the zero value.\<close>

definition as_str :: "json option \<Rightarrow> string" where
  "as_str v = (case v of Some (JStr s) \<Rightarrow> s | _ \<Rightarrow> '''')"

definition as_int :: "json option \<Rightarrow> int" where
  "as_int v = (case v of Some (JInt i) \<Rightarrow> i | _ \<Rightarrow> 0)"

definition as_map :: "json option \<Rightarrow> (string, string) gomap" where
  "as_map v = (case v of Some (JObj kvs) \<Rightarrow> map (\<lambda>(k, v). (k, as_str (Some v))) kvs | _ \<Rightarrow> [])"

fun members :: "json \<Rightarrow> string \<Rightarrow> json option" where
  "members (JObj kvs) = map_of kvs"
| "members _ = (\<lambda>k. None)"

lemma as_map_json_map [simp]: "as_map (Some (json_map m)) = sorted_pairs m"
  by (auto simp: as_map_def json_map_def as_str_def comp_def split_beta)

lemma sorted_pairs_Nil [simp]: "sorted_pairs [] = []"
  by (simp add: sorted_pairs_def)

end
