(* ===== verification/Grim_GQL_Result.thy ===== *)
theory Grim_GQL_Result
  imports Grim_GQL_Frame Grim_JSON
begin

text \<open>
  The response side of \<open>engine/gql\<close>: \<open>EncodeResult\<close> of \<open>types.go\<close> and the result and error frames of
  \<open>frame.go\<close>. The struct tags of \<open>GQLEntry\<close> and \<open>GQLResult\<close> determine the JSON document.
\<close>

section \<open>Encoding\<close>

definition entry_json :: "GQLEntry \<Rightarrow> json" where
  "entry_json e = JObj
     (always ''id'' (JStr (e_ID e)) @
      always ''category'' (JStr (e_Category e)) @
      omitempty (e_Type e = '''') ''type'' (JStr (e_Type e)) @
      omitempty (e_Title e = '''') ''title'' (JStr (e_Title e)) @
      omitempty (e_Fields e = []) ''fields'' (json_map (e_Fields e)) @
      always ''created_at'' (JInt (e_CreatedAt e)) @
      always ''updated_at'' (JInt (e_UpdatedAt e)))"

definition result_json :: "GQLResult \<Rightarrow> json" where
  "result_json r = JObj
     (omitempty (r_RequestID r = '''') ''request_id'' (JStr (r_RequestID r)) @
      always ''success'' (JBool (r_Success r)) @
      omitempty (r_Entries r = []) ''entries'' (JArr (map entry_json (r_Entries r))) @
      omitempty (r_TotalCount r = 0) ''total_count'' (JInt (uint (r_TotalCount r))) @
      omitempty (r_ErrorCode r = 0) ''error_code'' (JInt (r_ErrorCode r)) @
      omitempty (r_ErrorMsg r = '''') ''error_msg'' (JStr (r_ErrorMsg r)))"

text \<open>Marshalling these types never fails.\<close>

definition EncodeResult :: "GQLResult \<Rightarrow> byte list" where
  "EncodeResult r = bytes_of (render (result_json r))"

definition NewResultFrame :: "GQLResult \<Rightarrow> Frame" where
  "NewResultFrame result =
     (let payload = EncodeResult result
      in \<lparr>f_Version = Version, f_Opcode = OpcodeResult, f_Flags = FlagNone,
          f_PayloadSize = word_of_nat (length payload), f_Payload = payload\<rparr>)"

definition NewErrorFrame :: "int \<Rightarrow> string \<Rightarrow> Frame" where
  "NewErrorFrame code msg =
     (let result = \<lparr>r_RequestID = '''', r_Success = False, r_Entries = [], r_TotalCount = 0,
                    r_ErrorCode = code, r_ErrorMsg = msg\<rparr>;
          payload = EncodeResult result
      in \<lparr>f_Version = Version, f_Opcode = OpcodeError, f_Flags = FlagNone,
          f_PayloadSize = word_of_nat (length payload), f_Payload = payload\<rparr>)"

section \<open>What a client reads\<close>

definition entry_of_json :: "json \<Rightarrow> GQLEntry" where
  "entry_of_json j =
     (let m = members j
      in \<lparr>e_ID = as_str (m ''id''), e_Category = as_str (m ''category''), e_Type = as_str (m ''type''),
          e_Title = as_str (m ''title''), e_Fields = as_map (m ''fields''),
          e_CreatedAt = as_int (m ''created_at''), e_UpdatedAt = as_int (m ''updated_at'')\<rparr>)"

definition result_of_json :: "json \<Rightarrow> GQLResult" where
  "result_of_json j =
     (let m = members j
      in \<lparr>r_RequestID = as_str (m ''request_id''), r_Success = (m ''success'' = Some (JBool True)),
          r_Entries = (case m ''entries'' of Some (JArr es) \<Rightarrow> map entry_of_json es | _ \<Rightarrow> []),
          r_TotalCount = word_of_int (as_int (m ''total_count'')), r_ErrorCode = as_int (m ''error_code''),
          r_ErrorMsg = as_str (m ''error_msg'')\<rparr>)"

definition read_result :: "byte list \<Rightarrow> GQLResult option" where
  "read_result bs = map_option result_of_json (read_json (string_of bs))"

text \<open>The entry with the fields of its map listed by key, which is the same map.\<close>

definition by_key :: "GQLEntry \<Rightarrow> GQLEntry" where
  "by_key e = e\<lparr>e_Fields := sorted_pairs (e_Fields e)\<rparr>"

definition entry_text :: "GQLEntry \<Rightarrow> bool" where
  "entry_text e \<longleftrightarrow> valid_text (e_ID e) \<and> valid_text (e_Category e) \<and> valid_text (e_Type e) \<and> valid_text (e_Title e) \<and>
     (\<forall>(k, v) \<in> set (e_Fields e). valid_text k \<and> valid_text v)"

definition result_text :: "GQLResult \<Rightarrow> bool" where
  "result_text r \<longleftrightarrow> valid_text (r_RequestID r) \<and> valid_text (r_ErrorMsg r) \<and> list_all entry_text (r_Entries r)"

section \<open>Lemmas\<close>

lemma valid_keys:
  "valid_text ''id''" "valid_text ''category''" "valid_text ''type''" "valid_text ''title''"
  "valid_text ''fields''" "valid_text ''created_at''" "valid_text ''updated_at''" "valid_text ''request_id''"
  "valid_text ''success''" "valid_text ''entries''" "valid_text ''total_count''" "valid_text ''error_code''"
  "valid_text ''error_msg''"
  by (rule valid_text_ascii; simp)+

lemma entry_json_ok: "entry_text e \<Longrightarrow> json_ok (entry_json e)"
  by (simp add: entry_json_def entry_text_def always_def omitempty_def valid_keys json_ok_map del: valid_text.simps)

lemma result_json_ok: "result_text r \<Longrightarrow> json_ok (result_json r)"
  by (simp add: result_json_def result_text_def always_def omitempty_def valid_keys list_all_iff entry_json_ok del: valid_text.simps)

lemma entry_of_entry_json: "entry_of_json (entry_json e) = by_key e"
  by (simp add: entry_of_json_def entry_json_def by_key_def always_def omitempty_def as_str_def as_int_def as_map_def [of None] Let_def)

lemma result_of_result_json: "result_of_json (result_json r) = r\<lparr>r_Entries := map by_key (r_Entries r)\<rparr>"
  by (simp add: result_of_json_def result_json_def always_def omitempty_def as_str_def as_int_def Let_def entry_of_entry_json)

lemma read_EncodeResult:
  "result_text r \<Longrightarrow> read_result (EncodeResult r) = Some (r\<lparr>r_Entries := map by_key (r_Entries r)\<rparr>)"
  by (simp add: read_result_def EncodeResult_def read_json_render [OF result_json_ok] result_of_result_json)

lemma oversized_frame:
  assumes "MaxPayloadSize < length (f_Payload f)"
  shows "DecodeFrame (header_bytes f @ f_Payload f) \<noteq> Inr f'"
proof
  assume "DecodeFrame (header_bytes f @ f_Payload f) = Inr f'"
  then have "wire_frame f'" "header_bytes f @ f_Payload f = header_bytes f' @ f_Payload f'"
    using DecodeFrame_Inr by auto
  then have "length (f_Payload f) \<le> MaxPayloadSize"
    by (simp add: wire_frame_def)
  with assms show False
    by simp
qed

section \<open>Properties\<close>

text \<open>
  C28. Responses arrive intact or are refused. For every result whose texts are well-formed
  UTF-8, the frame built for it is decoded and its JSON text read back to the same result (fields
  that were left out because they were empty read as empty again, and the field map of each entry
  has the same keys and values) exactly when the text has at most 16 MiB. A longer one is framed
  all the same, and the receiver refuses the frame.
\<close>

theorem response_delivery:
  assumes "result_text r" "\<forall>e \<in> set (r_Entries r). gomap (e_Fields e)"
  shows "\<exists>data. Frame_Encode (NewResultFrame r) = Some data \<and>
    (if length (EncodeResult r) \<le> MaxPayloadSize
     then DecodeFrame data = Inr (NewResultFrame r) \<and>
       (\<exists>r'. read_result (f_Payload (NewResultFrame r)) = Some r' \<and>
          r' = r\<lparr>r_Entries := r_Entries r'\<rparr> \<and>
          list_all2 (\<lambda>e' e. e' = e\<lparr>e_Fields := e_Fields e'\<rparr> \<and> gomap_get (e_Fields e') = gomap_get (e_Fields e))
            (r_Entries r') (r_Entries r))
     else \<exists>err. DecodeFrame data = Inl err)"
proof -
  define f where "f = NewResultFrame r"
  have payload: "f_Payload f = EncodeResult r"
    by (simp add: f_def NewResultFrame_def Let_def)
  have enc: "Frame_Encode f = Some (header_bytes f @ f_Payload f)"
    by (rule Frame_Encode_layout)
  have small: "DecodeFrame (header_bytes f @ f_Payload f) = Inr f" if "length (EncodeResult r) \<le> MaxPayloadSize"
    using that by (intro DecodeFrame_layout) (simp add: wire_frame_def f_def NewResultFrame_def Let_def isValidOpcode_def)
  have large: "\<exists>err. DecodeFrame (header_bytes f @ f_Payload f) = Inl err" if "\<not> length (EncodeResult r) \<le> MaxPayloadSize"
    using that oversized_frame [of f] by (cases "DecodeFrame (header_bytes f @ f_Payload f)") (auto simp: payload)
  have "list_all2 (\<lambda>e' e. e' = e\<lparr>e_Fields := e_Fields e'\<rparr> \<and> gomap_get (e_Fields e') = gomap_get (e_Fields e))
      (map by_key (r_Entries r)) (r_Entries r)"
    using assms(2) by (simp add: list_all2_map1 list_all2_same by_key_def)
  then show ?thesis
    using enc small large read_EncodeResult [OF assms(1)] payload unfolding f_def [symmetric] by auto
qed

definition sample_result :: GQLResult where
  "sample_result = \<lparr>r_RequestID = '''', r_Success = True,
     r_Entries = [\<lparr>e_ID = ''7'', e_Category = ''PASSWORD'', e_Type = '''', e_Title = ''a<b'', e_Fields = [(''user'', ''me''), (''pin'', ''1'')],
       e_CreatedAt = 5, e_UpdatedAt = -6\<rparr>],
     r_TotalCount = 1, r_ErrorCode = 0, r_ErrorMsg = ''''\<rparr>"

theorem response_delivery_witness:
  "\<exists>r'. read_result (EncodeResult sample_result) = Some r' \<and> map e_Title (r_Entries r') = [''a<b''] \<and> r_TotalCount r' = 1"
proof -
  have small: "length (EncodeResult sample_result) \<le> MaxPayloadSize"
  proof -
    have "length (EncodeResult sample_result) \<le> 200"
      by code_simp
    then show ?thesis
      by (simp add: MaxPayloadSize_def)
  qed
  have "result_text sample_result" "\<forall>e \<in> set (r_Entries sample_result). gomap (e_Fields e)"
    by (auto simp: result_text_def entry_text_def sample_result_def gomap_def intro!: valid_text_ascii simp del: valid_text.simps)
  from response_delivery [OF this] small obtain r' where
    r': "read_result (EncodeResult sample_result) = Some r'" "r' = sample_result\<lparr>r_Entries := r_Entries r'\<rparr>"
    and es: "list_all2 (\<lambda>e' e. e' = e\<lparr>e_Fields := e_Fields e'\<rparr> \<and> gomap_get (e_Fields e') = gomap_get (e_Fields e))
      (r_Entries r') (r_Entries sample_result)"
    by (auto simp: NewResultFrame_def Let_def)
  have "r_TotalCount r' = 1"
    using arg_cong [OF r'(2), of r_TotalCount] by (simp add: sample_result_def)
  moreover have "list_all2 (\<lambda>e' e. e_Title e' = e_Title e) (r_Entries r') (r_Entries sample_result)"
    using es by (rule list_all2_mono) (metis GQLEntry.ext_inject GQLEntry.surjective GQLEntry.update_convs(5))
  then have "map e_Title (r_Entries r') = map e_Title (r_Entries sample_result)"
    by (simp add: list_all2_conv_all_nth list_eq_iff_nth_eq)
  ultimately show ?thesis
    using r'(1) by (auto simp: sample_result_def)
qed

lemma error_frame_result:
  "valid_text msg \<Longrightarrow>
   read_result (f_Payload (NewErrorFrame code msg)) =
     Some \<lparr>r_RequestID = '''', r_Success = False, r_Entries = [], r_TotalCount = 0, r_ErrorCode = code, r_ErrorMsg = msg\<rparr>"
  using read_EncodeResult [of "\<lparr>r_RequestID = '''', r_Success = False, r_Entries = [], r_TotalCount = 0, r_ErrorCode = code, r_ErrorMsg = msg\<rparr>"]
  by (simp add: NewErrorFrame_def Let_def result_text_def)

text \<open>
  An error frame carries its code and message: a client that reads it finds a failure with that
  code and message, no request identifier and no entries.
\<close>

theorem error_frame_read:
  assumes "valid_text msg"
  shows "f_Opcode (NewErrorFrame code msg) = OpcodeError \<and>
    read_result (f_Payload (NewErrorFrame code msg)) =
      Some \<lparr>r_RequestID = '''', r_Success = False, r_Entries = [], r_TotalCount = 0, r_ErrorCode = code, r_ErrorMsg = msg\<rparr>"
  using error_frame_result [OF assms] by (simp add: NewErrorFrame_def Let_def)

end
