(* ===== verification/Grim_Errors.thy ===== *)
theory Grim_Errors
  imports Grim_Prelude
begin

text \<open>
  \<open>engine/errors\<close>: the typed error, its constructors, matching and wrapping, and the HTTP
  status and remediation tables. The clock reading and the captured call stack are the two
  inputs a constructor takes from the runtime; they are passed as an environment.
\<close>

section \<open>Codes\<close>

definition ErrCodeVaultLocked :: int where "ErrCodeVaultLocked = 1001"
definition ErrCodeVaultNotInitialized :: int where "ErrCodeVaultNotInitialized = 1002"
definition ErrCodeAuthInvalid :: int where "ErrCodeAuthInvalid = 1003"
definition ErrCodeAuthTimeout :: int where "ErrCodeAuthTimeout = 1004"
definition ErrCodeAuthLockdown :: int where "ErrCodeAuthLockdown = 1005"
definition ErrCodeAuthSetupFailed :: int where "ErrCodeAuthSetupFailed = 1006"
definition ErrCodeAuthTokenExpired :: int where "ErrCodeAuthTokenExpired = 1007"
definition ErrCodeStorageIO :: int where "ErrCodeStorageIO = 2001"
definition ErrCodeStorageCorruption :: int where "ErrCodeStorageCorruption = 2002"
definition ErrCodeStorageNotFound :: int where "ErrCodeStorageNotFound = 2003"
definition ErrCodeStorageQuota :: int where "ErrCodeStorageQuota = 2004"
definition ErrCodeStorageIndexFailed :: int where "ErrCodeStorageIndexFailed = 2005"
definition ErrCodeStorageNonceFailed :: int where "ErrCodeStorageNonceFailed = 2006"
definition ErrCodeCryptoKeyDerivation :: int where "ErrCodeCryptoKeyDerivation = 3001"
definition ErrCodeCryptoEncryption :: int where "ErrCodeCryptoEncryption = 3002"
definition ErrCodeCryptoDecryption :: int where "ErrCodeCryptoDecryption = 3003"
definition ErrCodeCryptoInvalidKey :: int where "ErrCodeCryptoInvalidKey = 3004"
definition ErrCodeCryptoEntropyFailed :: int where "ErrCodeCryptoEntropyFailed = 3005"
definition ErrCodeCryptoHandleUnknown :: int where "ErrCodeCryptoHandleUnknown = 3006"
definition ErrCodeSecurityMemlock :: int where "ErrCodeSecurityMemlock = 4001"
definition ErrCodeSecurityLockdown :: int where "ErrCodeSecurityLockdown = 4002"
definition ErrCodeSecurityIntegrity :: int where "ErrCodeSecurityIntegrity = 4003"
definition ErrCodeSecurityUnauthorized :: int where "ErrCodeSecurityUnauthorized = 4004"
definition ErrCodeSecurityMVKMissing :: int where "ErrCodeSecurityMVKMissing = 4005"
definition ErrCodeBusShutdown :: int where "ErrCodeBusShutdown = 5001"
definition ErrCodeBusTimeout :: int where "ErrCodeBusTimeout = 5002"
definition ErrCodeBusGated :: int where "ErrCodeBusGated = 5003"
definition ErrCodeBusTTL :: int where "ErrCodeBusTTL = 5004"
definition ErrCodeBusModuleDuplicate :: int where "ErrCodeBusModuleDuplicate = 5005"
definition ErrCodeBusNilHandler :: int where "ErrCodeBusNilHandler = 5006"
definition ErrCodeProtocolInvalid :: int where "ErrCodeProtocolInvalid = 6001"
definition ErrCodeProtocolTimeout :: int where "ErrCodeProtocolTimeout = 6002"
definition ErrCodeProtocolUnhandled :: int where "ErrCodeProtocolUnhandled = 6003"
definition ErrCodeProtocolAuth :: int where "ErrCodeProtocolAuth = 6004"

lemmas ErrCode_defs =
  ErrCodeVaultLocked_def ErrCodeVaultNotInitialized_def ErrCodeAuthInvalid_def
  ErrCodeAuthTimeout_def ErrCodeAuthLockdown_def ErrCodeAuthSetupFailed_def
  ErrCodeAuthTokenExpired_def ErrCodeStorageIO_def ErrCodeStorageCorruption_def
  ErrCodeStorageNotFound_def ErrCodeStorageQuota_def ErrCodeStorageIndexFailed_def
  ErrCodeStorageNonceFailed_def ErrCodeCryptoKeyDerivation_def ErrCodeCryptoEncryption_def
  ErrCodeCryptoDecryption_def ErrCodeCryptoInvalidKey_def ErrCodeCryptoEntropyFailed_def
  ErrCodeCryptoHandleUnknown_def ErrCodeSecurityMemlock_def ErrCodeSecurityLockdown_def
  ErrCodeSecurityIntegrity_def ErrCodeSecurityUnauthorized_def ErrCodeSecurityMVKMissing_def
  ErrCodeBusShutdown_def ErrCodeBusTimeout_def ErrCodeBusGated_def ErrCodeBusTTL_def
  ErrCodeBusModuleDuplicate_def ErrCodeBusNilHandler_def ErrCodeProtocolInvalid_def
  ErrCodeProtocolTimeout_def ErrCodeProtocolUnhandled_def ErrCodeProtocolAuth_def

section \<open>The error type\<close>

record StackFrame =
  sf_File :: string
  sf_Line :: int
  sf_Function :: string

record ErrorContext =
  ctx_BlockID :: string
  ctx_Operation :: string
  ctx_Details :: "(string, string) gomap"

text \<open>
  An \<open>error\<close> value is a \<open>*GrimlockError\<close> or an error of another type. The latter is
  compared by identity, so it carries one beside its text.
\<close>

datatype go_error =
    ErrOther nat string
  | ErrGrim GrimlockError
and GrimlockError =
    GrimlockError (Code: int) (Message: string) (Ctx: ErrorContext) (Stack: "StackFrame list")
      (Cause: "go_error option") (Timestamp: int) (ModuleID: string) (EventType: string)

record env =
  env_now :: int
  env_stack :: "StackFrame list"

definition maxStackFrames :: nat where "maxStackFrames = 20"

text \<open>
  \<open>runtime.Callers\<close> reports the frames of the running goroutine, innermost first;
  \<open>env_stack\<close> lists them from the direct caller of \<open>CaptureStacktrace\<close> on.
\<close>

definition CaptureStacktrace :: "env \<Rightarrow> nat \<Rightarrow> StackFrame list" where
  "CaptureStacktrace en skip = take maxStackFrames (drop skip (env_stack en))"

definition StackFrame_String :: "StackFrame \<Rightarrow> string" where
  "StackFrame_String f = sf_File f @ '':'' @ show_int (sf_Line f) @ '' in '' @ sf_Function f"

definition newError :: "env \<Rightarrow> int \<Rightarrow> string \<Rightarrow> go_error option \<Rightarrow> ErrorContext \<Rightarrow> bool \<Rightarrow> GrimlockError" where
  "newError en code msg cause ctx captureStack =
     GrimlockError code msg ctx (if captureStack then CaptureStacktrace en 2 else []) cause
       (env_now en) '''' ''''"

abbreviation ctx_op :: "string \<Rightarrow> ErrorContext" where
  "ctx_op oper \<equiv> \<lparr>ctx_BlockID = '''', ctx_Operation = oper, ctx_Details = []\<rparr>"

section \<open>Methods\<close>

primrec error_text :: "go_error \<Rightarrow> string"
  and GrimlockError_Error :: "GrimlockError \<Rightarrow> string" where
  "error_text (ErrOther i s) = s"
| "error_text (ErrGrim e) = GrimlockError_Error e"
| "GrimlockError_Error (GrimlockError code msg ctx stk cause ts md ev) =
     (case map_option error_text cause of
        Some c \<Rightarrow> ''['' @ show_int code @ ''] '' @ msg @ '': '' @ c
      | None \<Rightarrow> ''['' @ show_int code @ ''] '' @ msg)"

fun Unwrap :: "go_error \<Rightarrow> go_error option" where
  "Unwrap (ErrGrim e) = Cause e"
| "Unwrap (ErrOther i s) = None"

fun GrimlockError_Is :: "GrimlockError \<Rightarrow> go_error \<Rightarrow> bool" where
  "GrimlockError_Is e (ErrGrim t) \<longleftrightarrow> Code e = Code t"
| "GrimlockError_Is e (ErrOther i s) \<longleftrightarrow> False"

text \<open>
  \<open>errors.Is\<close> of the standard library: the error itself, then its cause, and so on. Two
  pointers to the same \<open>GrimlockError\<close> have the same code, so pointer equality adds nothing to
  the method there.
\<close>

primrec errors_Is :: "go_error \<Rightarrow> go_error \<Rightarrow> bool"
  and errors_Is_grim :: "GrimlockError \<Rightarrow> go_error \<Rightarrow> bool" where
  "errors_Is (ErrOther i s) target \<longleftrightarrow> ErrOther i s = target"
| "errors_Is (ErrGrim e) target \<longleftrightarrow> errors_Is_grim e target"
| "errors_Is_grim (GrimlockError code msg ctx stk cause ts md ev) target \<longleftrightarrow>
     GrimlockError_Is (GrimlockError code msg ctx stk cause ts md ev) target \<or>
     (case map_option errors_Is cause of Some f \<Rightarrow> f target | None \<Rightarrow> False)"

definition HTTPStatus :: "GrimlockError \<Rightarrow> int" where
  "HTTPStatus e =
     (if Code e = ErrCodeVaultLocked then 423
      else if Code e = ErrCodeVaultNotInitialized then 404
      else if Code e = ErrCodeAuthInvalid \<or> Code e = ErrCodeAuthTokenExpired then 401
      else if Code e = ErrCodeAuthLockdown then 429
      else if Code e = ErrCodeStorageNotFound then 404
      else if Code e = ErrCodeStorageCorruption \<or> Code e = ErrCodeCryptoDecryption then 422
      else if Code e = ErrCodeSecurityUnauthorized \<or> Code e = ErrCodeSecurityLockdown then 403
      else if Code e = ErrCodeProtocolInvalid then 400
      else if Code e = ErrCodeBusTimeout \<or> Code e = ErrCodeProtocolTimeout then 504
      else 500)"

text \<open>The value \<open>MarshalJSON\<close> serialises: every field but the cause.\<close>

record wire =
  w_Code :: int
  w_Message :: string
  w_Ctx :: ErrorContext
  w_Stack :: "StackFrame list"
  w_Timestamp :: int
  w_ModuleID :: string
  w_EventType :: string

definition MarshalJSON_wire :: "GrimlockError \<Rightarrow> wire" where
  "MarshalJSON_wire e =
     \<lparr>w_Code = Code e, w_Message = Message e, w_Ctx = Ctx e, w_Stack = Stack e,
      w_Timestamp = Timestamp e, w_ModuleID = ModuleID e, w_EventType = EventType e\<rparr>"

section \<open>Constructors\<close>

text \<open>The UTF-8 bytes of the em dash the messages contain.\<close>

abbreviation em_dash :: string where
  "em_dash \<equiv> [CHR 0xE2, CHR 0x80, CHR 0x94]"

abbreviation ctx_block :: "string \<Rightarrow> string \<Rightarrow> (string, string) gomap \<Rightarrow> ErrorContext" where
  "ctx_block oper blockID details \<equiv>
     \<lparr>ctx_BlockID = blockID, ctx_Operation = oper, ctx_Details = details\<rparr>"

definition NewVaultLockedError :: "env \<Rightarrow> GrimlockError" where
  "NewVaultLockedError en =
     newError en ErrCodeVaultLocked ''vault is locked'' None (ctx_op ''vault_access'') False"

definition NewAuthInvalidError :: "env \<Rightarrow> string \<Rightarrow> go_error option \<Rightarrow> GrimlockError" where
  "NewAuthInvalidError en oper cause =
     newError en ErrCodeAuthInvalid ''authentication failed'' cause (ctx_op oper) True"

definition NewAuthLockdownError :: "env \<Rightarrow> int \<Rightarrow> GrimlockError" where
  "NewAuthLockdownError en attemptsRemaining =
     newError en ErrCodeAuthLockdown ''vault locked out after too many failed attempts'' None
       (ctx_block ''auth_lockdown'' '''' [(''remaining_attempts'', show_int attemptsRemaining)])
       False"

definition NewVaultNotInitializedError :: "env \<Rightarrow> GrimlockError" where
  "NewVaultNotInitializedError en =
     newError en ErrCodeVaultNotInitialized
       (''vault not initialized '' @ em_dash @ '' run setup first'') None
       (ctx_op ''vault_init_check'') False"

definition NewStorageIOError :: "env \<Rightarrow> string \<Rightarrow> string \<Rightarrow> go_error option \<Rightarrow> GrimlockError" where
  "NewStorageIOError en oper blockID cause =
     newError en ErrCodeStorageIO ''storage I/O failure'' cause (ctx_block oper blockID []) True"

definition NewStorageCorruptionError ::
  "env \<Rightarrow> string \<Rightarrow> string \<Rightarrow> (string, string) gomap \<Rightarrow> GrimlockError" where
  "NewStorageCorruptionError en oper blockID details =
     newError en ErrCodeStorageCorruption ''storage data corruption detected'' None
       (ctx_block oper blockID details) True"

definition NewStorageNotFoundError :: "env \<Rightarrow> string \<Rightarrow> GrimlockError" where
  "NewStorageNotFoundError en blockID =
     newError en ErrCodeStorageNotFound (''block not found: '' @ blockID) None
       (ctx_block ''block_lookup'' blockID []) False"

definition NewStorageIndexError :: "env \<Rightarrow> string \<Rightarrow> go_error option \<Rightarrow> GrimlockError" where
  "NewStorageIndexError en oper cause =
     newError en ErrCodeStorageIndexFailed ''vault index operation failed'' cause
       (ctx_op oper) True"

definition NewCryptoDecryptionError :: "env \<Rightarrow> string \<Rightarrow> go_error option \<Rightarrow> GrimlockError" where
  "NewCryptoDecryptionError en blockID cause =
     newError en ErrCodeCryptoDecryption
       (''decryption failed '' @ em_dash @ '' wrong key or data tampered'') cause
       (ctx_block ''chacha20poly1305_open'' blockID []) True"

definition NewCryptoEncryptionError :: "env \<Rightarrow> string \<Rightarrow> go_error option \<Rightarrow> GrimlockError" where
  "NewCryptoEncryptionError en oper cause =
     newError en ErrCodeCryptoEncryption ''encryption failed'' cause (ctx_op oper) True"

definition NewCryptoKeyDerivationError :: "env \<Rightarrow> string \<Rightarrow> go_error option \<Rightarrow> GrimlockError" where
  "NewCryptoKeyDerivationError en oper cause =
     newError en ErrCodeCryptoKeyDerivation ''key derivation failed'' cause (ctx_op oper) True"

definition NewCryptoInvalidKeyError :: "env \<Rightarrow> int \<Rightarrow> GrimlockError" where
  "NewCryptoInvalidKeyError en got =
     newError en ErrCodeCryptoInvalidKey
       (''invalid key length: got '' @ show_int got @ '' bytes, need 32'') None
       (ctx_block ''key_validation'' '''' [(''got_bytes'', show_int got)]) True"

definition safePrefix :: "string \<Rightarrow> nat \<Rightarrow> string" where
  "safePrefix s n = (if length s \<le> n then s else take n s @ ''...'')"

definition NewCryptoHandleUnknownError :: "env \<Rightarrow> string \<Rightarrow> GrimlockError" where
  "NewCryptoHandleUnknownError en handle =
     newError en ErrCodeCryptoHandleUnknown ''key handle not found'' None
       (ctx_block ''key_resolve'' '''' [(''handle_prefix'', safePrefix handle 8)]) False"

definition NewSecurityMemlockError :: "env \<Rightarrow> go_error option \<Rightarrow> GrimlockError" where
  "NewSecurityMemlockError en cause =
     newError en ErrCodeSecurityMemlock
       (''cannot lock memory '' @ em_dash @ '' key material may be swappable'') cause
       (ctx_op ''memlock_alloc'') True"

definition NewSecurityLockdownError ::
  "env \<Rightarrow> string \<Rightarrow> (string, string) gomap \<Rightarrow> GrimlockError" where
  "NewSecurityLockdownError en reason details =
     newError en ErrCodeSecurityLockdown
       (''hard lockdown triggered '' @ em_dash @ '' all key material zeroed'') None
       (ctx_block ''hard_lockdown'' '''' details) True"

definition NewSecurityMVKMissingError :: "env \<Rightarrow> string \<Rightarrow> GrimlockError" where
  "NewSecurityMVKMissingError en oper =
     newError en ErrCodeSecurityMVKMissing
       (''master vault key not available '' @ em_dash @ '' vault locked?'') None (ctx_op oper) False"

definition NewBusTimeoutError :: "env \<Rightarrow> string \<Rightarrow> GrimlockError" where
  "NewBusTimeoutError en eventType =
     newError en ErrCodeBusTimeout ''event request timed out'' None
       (ctx_block ''bus_request'' '''' [(''event_type'', eventType)]) False"

definition NewBusShutdownError :: "env \<Rightarrow> GrimlockError" where
  "NewBusShutdownError en =
     newError en ErrCodeBusShutdown ''bus is shutting down'' None (ctx_op ''bus_dispatch'') False"

definition NewBusGatedError :: "env \<Rightarrow> string \<Rightarrow> string \<Rightarrow> GrimlockError" where
  "NewBusGatedError en eventType channel =
     newError en ErrCodeBusGated ''event dropped: vault not unlocked'' None
       (ctx_block ''gate_check'' '''' [(''event_type'', eventType), (''channel'', channel)]) False"

definition NewProtocolError :: "env \<Rightarrow> string \<Rightarrow> go_error option \<Rightarrow> GrimlockError" where
  "NewProtocolError en oper cause =
     newError en ErrCodeProtocolInvalid
       (''protocol error '' @ em_dash @ '' invalid message format'') cause (ctx_op oper) True"

section \<open>Wrapping, sentinels and annotations\<close>

definition Wrap :: "env \<Rightarrow> int \<Rightarrow> string \<Rightarrow> go_error option \<Rightarrow> GrimlockError option" where
  "Wrap en code msg err =
     (case err of
        None \<Rightarrow> None
      | Some (ErrGrim ge) \<Rightarrow> Some ge
      | Some (ErrOther i s) \<Rightarrow> Some (newError en code msg (Some (ErrOther i s)) (ctx_op '''') True))"

definition Sentinel :: "int \<Rightarrow> string \<Rightarrow> GrimlockError" where
  "Sentinel code msg = GrimlockError code msg (ctx_op '''') [] None 0 '''' ''''"

text \<open>A value of type \<open>interface{}\<close> as far as the package formats one with \<open>%v\<close>.\<close>

datatype go_any = AnyInt int | AnyString string | AnyStrings "string list"

fun join_space :: "string list \<Rightarrow> string" where
  "join_space [] = ''''"
| "join_space [s] = s"
| "join_space (s # t # ss) = s @ '' '' @ join_space (t # ss)"

fun sprint_v :: "go_any \<Rightarrow> string" where
  "sprint_v (AnyInt i) = show_int i"
| "sprint_v (AnyString s) = s"
| "sprint_v (AnyStrings ss) = ''['' @ join_space ss @ '']''"

primrec WithDetails :: "GrimlockError \<Rightarrow> string \<Rightarrow> go_any \<Rightarrow> GrimlockError" where
  "WithDetails (GrimlockError code msg ctx stk cause ts md ev) key v =
     GrimlockError code msg (ctx\<lparr>ctx_Details := gomap_set (ctx_Details ctx) key (sprint_v v)\<rparr>)
       stk cause ts md ev"

primrec WithModule :: "GrimlockError \<Rightarrow> string \<Rightarrow> GrimlockError" where
  "WithModule (GrimlockError code msg ctx stk cause ts md ev) moduleID =
     GrimlockError code msg ctx stk cause ts moduleID ev"

primrec WithEvent :: "GrimlockError \<Rightarrow> string \<Rightarrow> GrimlockError" where
  "WithEvent (GrimlockError code msg ctx stk cause ts md ev) eventType =
     GrimlockError code msg ctx stk cause ts md eventType"

section \<open>Console and log output\<close>

type_synonym ErrorLevel = int

definition LevelInfo :: ErrorLevel where "LevelInfo = 0"
definition LevelWarn :: ErrorLevel where "LevelWarn = 1"
definition LevelError :: ErrorLevel where "LevelError = 2"
definition LevelCritical :: ErrorLevel where "LevelCritical = 3"
definition LevelSecurity :: ErrorLevel where "LevelSecurity = 4"

definition levelLabel :: "ErrorLevel \<Rightarrow> string" where
  "levelLabel level =
     (if level = LevelInfo then ''INFO''
      else if level = LevelWarn then ''WARN''
      else if level = LevelError then ''ERROR''
      else if level = LevelCritical then ''CRITICAL''
      else if level = LevelSecurity then ''SECURITY''
      else ''ERROR'')"

definition ErrorRemediation :: "(int, string) gomap" where
  "ErrorRemediation =
     [(ErrCodeVaultLocked, ''Unlock the vault first (send AUTH.UNLOCK)''),
      (ErrCodeVaultNotInitialized, ''Run vault setup (send VAULT.INIT)''),
      (ErrCodeAuthInvalid, ''Check your password and try again''),
      (ErrCodeAuthLockdown,
         ''Too many failed attempts '' @ em_dash @ '' wait for lockout to expire''),
      (ErrCodeStorageIO, ''Check vault file permissions and available disk space''),
      (ErrCodeStorageCorruption,
         ''Vault data may be corrupted '' @ em_dash @ '' check HMAC and backup''),
      (ErrCodeStorageNotFound, ''Block does not exist '' @ em_dash @ '' it may have been deleted''),
      (ErrCodeStorageIndexFailed,
         ''Index persist failed '' @ em_dash @ '' check disk space and permissions''),
      (ErrCodeCryptoDecryption, ''Decryption failed '' @ em_dash @ '' wrong key or tampered data''),
      (ErrCodeCryptoInvalidKey, ''Key material is nil or wrong length (need 32 bytes)''),
      (ErrCodeSecurityMemlock, ''Cannot lock memory '' @ em_dash @ '' check OS limits (ulimit -l)''),
      (ErrCodeSecurityLockdown,
         ''Hard lockdown '' @ em_dash @ '' restart daemon and re-enter password''),
      (ErrCodeSecurityMVKMissing, ''Vault is locked '' @ em_dash @ '' unlock before this operation''),
      (ErrCodeBusTimeout, ''Request timed out '' @ em_dash @ '' daemon may be overloaded''),
      (ErrCodeProtocolInvalid, ''Binary frame is malformed '' @ em_dash @ '' check client version'')]"

definition Remediation :: "GrimlockError \<Rightarrow> string" where
  "Remediation e =
     (case gomap_get ErrorRemediation (Code e) of
        Some hint \<Rightarrow> hint
      | None \<Rightarrow> ''Check daemon logs for details'')"

abbreviation nl :: string where "nl \<equiv> [CHR 0x0A]"

definition ConsoleFormat :: "GrimlockError \<Rightarrow> string" where
  "ConsoleFormat e =
     ''[Code '' @ show_int (Code e) @ ''] '' @ Message e @
     (if ctx_Operation (Ctx e) \<noteq> '''' then nl @ ''        Operation:   '' @ ctx_Operation (Ctx e) else '''') @
     (if ctx_BlockID (Ctx e) \<noteq> '''' then nl @ ''        BlockID:     '' @ ctx_BlockID (Ctx e) else '''') @
     (case Cause e of Some c \<Rightarrow> nl @ ''        Cause:       '' @ error_text c | None \<Rightarrow> '''') @
     concat (map (\<lambda>(k, v). nl @ ''        '' @ k @ '': '' @ v) (ctx_Details (Ctx e))) @
     nl @ ''        Remediation: '' @ Remediation e"

text \<open>
  The call \<open>Log\<close> makes: the message, the cause and the fields it hands to the logger's
  \<open>Error\<close> method.
\<close>

definition detail_key :: "string \<Rightarrow> string" where
  "detail_key k = ''detail_'' @ k"

definition put_details ::
  "(string, go_any) gomap \<Rightarrow> (string, string) gomap \<Rightarrow> (string, go_any) gomap" where
  "put_details fs ds = foldl (\<lambda>m (k, v). gomap_set m (detail_key k) (AnyString v)) fs ds"

definition Log_fields :: "GrimlockError \<Rightarrow> (string, go_any) gomap" where
  "Log_fields e =
     (let fs = [(''error_code'', AnyInt (Code e)), (''module'', AnyString (ModuleID e)),
                (''operation'', AnyString (ctx_Operation (Ctx e)))];
          fs = (if ctx_BlockID (Ctx e) \<noteq> '''' then gomap_set fs ''block_id'' (AnyString (ctx_BlockID (Ctx e))) else fs);
          fs = put_details fs (ctx_Details (Ctx e));
          fs = (if EventType e \<noteq> '''' then gomap_set fs ''event_type'' (AnyString (EventType e)) else fs)
      in if Stack e \<noteq> [] then gomap_set fs ''stacktrace'' (AnyStrings (map StackFrame_String (Stack e))) else fs)"

definition Log :: "GrimlockError \<Rightarrow> string \<times> go_error option \<times> (string, go_any) gomap" where
  "Log e = (Message e, Cause e, Log_fields e)"

record StdLogger =
  Prefix :: string
  DebugEnabled :: bool

definition StdLogger_format :: "StdLogger \<Rightarrow> string \<Rightarrow> string \<Rightarrow> (string, go_any) gomap \<Rightarrow> string" where
  "StdLogger_format l level msg fs =
     (if Prefix l \<noteq> '''' then Prefix l @ '' '' else '''') @ ''['' @ level @ ''] '' @ msg @
     concat (map (\<lambda>(k, v). '' '' @ k @ ''='' @ sprint_v v) fs)"

text \<open>Each method returns the lines it prints; \<open>Fatal\<close> exits the process after its line.\<close>

definition StdLogger_Debug :: "StdLogger \<Rightarrow> string \<Rightarrow> (string, go_any) gomap \<Rightarrow> string list" where
  "StdLogger_Debug l msg fs = (if \<not> DebugEnabled l then [] else [StdLogger_format l ''DEBUG'' msg fs])"

definition StdLogger_Info :: "StdLogger \<Rightarrow> string \<Rightarrow> (string, go_any) gomap \<Rightarrow> string list" where
  "StdLogger_Info l msg fs = [StdLogger_format l ''INFO'' msg fs]"

definition StdLogger_Warn :: "StdLogger \<Rightarrow> string \<Rightarrow> (string, go_any) gomap \<Rightarrow> string list" where
  "StdLogger_Warn l msg fs = [StdLogger_format l ''WARN'' msg fs]"

definition StdLogger_Error ::
  "StdLogger \<Rightarrow> string \<Rightarrow> go_error option \<Rightarrow> (string, go_any) gomap \<Rightarrow> string list" where
  "StdLogger_Error l msg err fs =
     (let fs = (case err of
                  None \<Rightarrow> fs
                | Some (ErrGrim ge) \<Rightarrow> gomap_set fs ''grimlock_error'' (AnyString (ConsoleFormat ge))
                | Some (ErrOther i s) \<Rightarrow> gomap_set fs ''error'' (AnyString s))
      in [StdLogger_format l ''ERROR'' msg fs])"

definition StdLogger_Fatal ::
  "StdLogger \<Rightarrow> string \<Rightarrow> go_error option \<Rightarrow> (string, go_any) gomap \<Rightarrow> string list" where
  "StdLogger_Fatal l msg err fs =
     (let fs = (case err of
                  None \<Rightarrow> fs
                | Some c \<Rightarrow> gomap_set fs ''error'' (AnyString (error_text c)))
      in [StdLogger_format l ''FATAL'' msg fs])"

definition NewStdLogger :: "string \<Rightarrow> StdLogger" where
  "NewStdLogger modulePrefix = \<lparr>Prefix = modulePrefix, DebugEnabled = False\<rparr>"

definition NewDebugLogger :: "string \<Rightarrow> StdLogger" where
  "NewDebugLogger modulePrefix = \<lparr>Prefix = modulePrefix, DebugEnabled = True\<rparr>"

section \<open>Laws of matching and wrapping\<close>

text \<open>The chain \<open>errors.Unwrap\<close> walks, from the error itself to the innermost cause.\<close>

primrec chain :: "go_error \<Rightarrow> go_error list"
  and chain_grim :: "GrimlockError \<Rightarrow> go_error list" where
  "chain (ErrOther i s) = [ErrOther i s]"
| "chain (ErrGrim e) = chain_grim e"
| "chain_grim (GrimlockError code msg ctx stk cause ts md ev) =
     ErrGrim (GrimlockError code msg ctx stk cause ts md ev) #
     (case map_option chain cause of Some c \<Rightarrow> c | None \<Rightarrow> [])"

fun same_error :: "go_error \<Rightarrow> go_error \<Rightarrow> bool" where
  "same_error (ErrGrim e) (ErrGrim t) \<longleftrightarrow> Code e = Code t"
| "same_error (ErrOther i s) t \<longleftrightarrow> ErrOther i s = t"
| "same_error (ErrGrim e) (ErrOther i s) \<longleftrightarrow> False"

lemma GrimlockError_Is_same: "GrimlockError_Is e t \<longleftrightarrow> same_error (ErrGrim e) t"
  by (cases t) auto

lemma errors_Is_chain:
  "errors_Is x t \<longleftrightarrow> (\<exists>y \<in> set (chain x). same_error y t)"
  "errors_Is_grim g t \<longleftrightarrow> (\<exists>y \<in> set (chain_grim g). same_error y t)"
proof (induction x and g)
  case (GrimlockError code msg ctx stk cause ts md ev)
  then show ?case
    by (cases cause) (auto simp: GrimlockError_Is_same)
qed auto

lemma errors_Is_refl: "errors_Is e e"
proof (cases e)
  case (ErrGrim g)
  then show ?thesis
    by (cases g) simp
qed simp

lemma Code_newError [simp]: "Code (newError en c m cs ctx b) = c"
  by (simp add: newError_def)

text \<open>
  Matching and wrapping. \<open>errors.Is\<close> holds exactly when some error of the cause chain
  matches the target (a \<open>GrimlockError\<close> by its code, another error by identity); wrapping an
  error keeps everything it matched, adds the wrapper's own code exactly when the error was not
  already typed, and wrapping twice is wrapping once.
\<close>

theorem errors_Is_Wrap:
  "(errors_Is x t \<longleftrightarrow> (\<exists>y \<in> set (chain x). same_error y t)) \<and>
   (case Wrap en code msg err of
      None \<Rightarrow> err = None
    | Some w \<Rightarrow>
        (\<exists>e. err = Some e \<and>
          (errors_Is (ErrGrim w) t \<longleftrightarrow>
             errors_Is e t \<or> (\<exists>i s. e = ErrOther i s) \<and> same_error (ErrGrim (Sentinel code m)) t)) \<and>
        Wrap en' code' msg' (Some (ErrGrim w)) = Some w)"
  by (cases err; cases t) (auto simp: errors_Is_chain(1) Wrap_def newError_def Sentinel_def
      split: go_error.splits)

lemma safePrefix_eq_iff:
  "safePrefix h n = safePrefix h' n \<longleftrightarrow>
     h = h' \<or> n < length h \<and> n < length h' \<and> take n h = take n h'"
proof -
  have "length (safePrefix h n) = (if length h \<le> n then length h else n + 3)" for h
    by (simp add: safePrefix_def)
  then show ?thesis
    by (cases "length h \<le> n"; cases "length h' \<le> n")
      (force simp: safePrefix_def dest: arg_cong [where f = length])+
qed

text \<open>
  What the unknown-handle error discloses. Two handles give the same error exactly when they
  are equal or are both longer than eight bytes and agree on the first eight: of a longer handle
  the error reveals the first eight bytes and nothing else.
\<close>

theorem handle_error_discloses_prefix_only:
  "NewCryptoHandleUnknownError en h = NewCryptoHandleUnknownError en h' \<longleftrightarrow>
     h = h' \<or> 8 < length h \<and> 8 < length h' \<and> take 8 h = take 8 h'"
  by (simp add: NewCryptoHandleUnknownError_def newError_def safePrefix_eq_iff)

section \<open>The fields of a log entry\<close>

lemma detail_key_inject [simp]: "detail_key k = detail_key k' \<longleftrightarrow> k = k'"
  by (simp add: detail_key_def)

lemma fixed_keys_not_details:
  "''error_code'' \<notin> range detail_key" "''module'' \<notin> range detail_key"
  "''operation'' \<notin> range detail_key" "''block_id'' \<notin> range detail_key"
  "''event_type'' \<notin> range detail_key" "''stacktrace'' \<notin> range detail_key"
  by (auto simp: detail_key_def)

lemma detail_key_fixed [simp]:
  "detail_key k \<noteq> ''error_code''" "detail_key k \<noteq> ''module''" "detail_key k \<noteq> ''operation''"
  "detail_key k \<noteq> ''block_id''" "detail_key k \<noteq> ''event_type''" "detail_key k \<noteq> ''stacktrace''"
  by (simp_all add: detail_key_def)

lemma map_of_put_details_other:
  "key \<notin> range detail_key \<Longrightarrow> map_of (put_details m ds) key = map_of m key"
  by (induction ds arbitrary: m) (auto simp: put_details_def)

lemma map_of_put_details:
  "gomap ds \<Longrightarrow> map_of (put_details m ds) (detail_key k) =
     (case map_of ds k of Some v \<Rightarrow> Some (AnyString v) | None \<Rightarrow> map_of m (detail_key k))"
  by (induction ds arbitrary: m)
    (auto simp: put_details_def gomap_def map_of_eq_None_iff [symmetric] split: option.splits)

text \<open>
  A log entry carries the code, the module and the operation under their own keys whatever
  the details are, every detail under its prefixed key, and the stack as the printed frames; so
  no detail can overwrite the fixed fields.
\<close>

theorem Log_fields_lookup:
  assumes "gomap (ctx_Details (Ctx e))"
  shows "gomap_get (Log_fields e) ''error_code'' = Some (AnyInt (Code e)) \<and>
    gomap_get (Log_fields e) ''module'' = Some (AnyString (ModuleID e)) \<and>
    gomap_get (Log_fields e) ''operation'' = Some (AnyString (ctx_Operation (Ctx e))) \<and>
    gomap_get (Log_fields e) (detail_key k) = map_option AnyString (gomap_get (ctx_Details (Ctx e)) k) \<and>
    gomap_get (Log_fields e) ''stacktrace'' =
      (if Stack e = [] then None else Some (AnyStrings (map StackFrame_String (Stack e))))"
  using assms
  by (auto simp: Log_fields_def Let_def map_of_put_details map_of_put_details_other
      fixed_keys_not_details split: option.splits)

theorem Log_fields_lookup_witness:
  "gomap_get (Log_fields (WithDetails (NewStorageIOError \<lparr>env_now = 5, env_stack = []\<rparr> ''read'' ''b1'' None)
      ''error_code'' (AnyInt 7))) ''error_code'' = Some (AnyInt 2001)"
  using Log_fields_lookup [of "WithDetails (NewStorageIOError \<lparr>env_now = 5, env_stack = []\<rparr> ''read'' ''b1'' None)
      ''error_code'' (AnyInt 7)"]
  by (simp add: NewStorageIOError_def newError_def ErrCodeStorageIO_def)

end
