(* ===== verification/Grim_Error_JSON.thy ===== *)
theory Grim_Error_JSON
  imports Grim_Errors Grim_JSON
begin

text \<open>
  \<open>MarshalJSON\<close> of \<open>engine/errors/types.go\<close>: the JSON text of an error that is sent to clients. The tag
  \<open>omitempty\<close> has no effect on the context, which is a struct.
\<close>

definition frame_json :: "StackFrame \<Rightarrow> json" where
  "frame_json f = JObj
     (always ''file'' (JStr (sf_File f)) @ always ''line'' (JInt (sf_Line f)) @ always ''function'' (JStr (sf_Function f)))"

definition context_json :: "ErrorContext \<Rightarrow> json" where
  "context_json c = JObj
     (omitempty (ctx_BlockID c = '''') ''block_id'' (JStr (ctx_BlockID c)) @
      omitempty (ctx_Operation c = '''') ''operation'' (JStr (ctx_Operation c)) @
      omitempty (ctx_Details c = []) ''details'' (json_map (ctx_Details c)))"

definition wire_json :: "wire \<Rightarrow> json" where
  "wire_json w = JObj
     (always ''code'' (JInt (w_Code w)) @
      always ''message'' (JStr (w_Message w)) @
      always ''context'' (context_json (w_Ctx w)) @
      omitempty (w_Stack w = []) ''stacktrace'' (JArr (map frame_json (w_Stack w))) @
      always ''timestamp'' (JInt (w_Timestamp w)) @
      omitempty (w_ModuleID w = '''') ''module_id'' (JStr (w_ModuleID w)) @
      omitempty (w_EventType w = '''') ''event_type'' (JStr (w_EventType w)))"

definition MarshalJSON :: "GrimlockError \<Rightarrow> byte list" where
  "MarshalJSON e = bytes_of (render (wire_json (MarshalJSON_wire e)))"

section \<open>What a client learns\<close>

lemma valid_error_keys:
  "valid_text ''file''" "valid_text ''line''" "valid_text ''function''" "valid_text ''block_id''" "valid_text ''operation''"
  "valid_text ''details''" "valid_text ''code''" "valid_text ''message''" "valid_text ''context''" "valid_text ''stacktrace''"
  "valid_text ''timestamp''" "valid_text ''module_id''" "valid_text ''event_type''"
  by (rule valid_text_ascii; simp)+

definition frame_text :: "StackFrame \<Rightarrow> bool" where
  "frame_text f \<longleftrightarrow> valid_text (sf_File f) \<and> valid_text (sf_Function f)"

definition wire_text :: "wire \<Rightarrow> bool" where
  "wire_text w \<longleftrightarrow> valid_text (w_Message w) \<and> valid_text (w_ModuleID w) \<and> valid_text (w_EventType w) \<and>
     valid_text (ctx_BlockID (w_Ctx w)) \<and> valid_text (ctx_Operation (w_Ctx w)) \<and>
     (\<forall>(k, v) \<in> set (ctx_Details (w_Ctx w)). valid_text k \<and> valid_text v) \<and> list_all frame_text (w_Stack w)"

lemma frame_json_ok: "frame_text f \<Longrightarrow> json_ok (frame_json f)"
  by (simp add: frame_json_def frame_text_def always_def valid_error_keys del: valid_text.simps)

lemma wire_json_ok: "wire_text w \<Longrightarrow> json_ok (wire_json w)"
  by (simp add: wire_json_def context_json_def wire_text_def always_def omitempty_def valid_error_keys list_all_iff
      frame_json_ok json_ok_map del: valid_text.simps)

text \<open>Reading the document back into the structs.\<close>

definition frame_of_json :: "json \<Rightarrow> StackFrame" where
  "frame_of_json j =
     \<lparr>sf_File = as_str (members j ''file''), sf_Line = as_int (members j ''line''), sf_Function = as_str (members j ''function'')\<rparr>"

definition context_of_json :: "json \<Rightarrow> ErrorContext" where
  "context_of_json j =
     \<lparr>ctx_BlockID = as_str (members j ''block_id''), ctx_Operation = as_str (members j ''operation''),
      ctx_Details = as_map (members j ''details'')\<rparr>"

definition wire_of_json :: "json \<Rightarrow> wire" where
  "wire_of_json j =
     \<lparr>w_Code = as_int (members j ''code''), w_Message = as_str (members j ''message''),
      w_Ctx = (case members j ''context'' of Some c \<Rightarrow> context_of_json c | None \<Rightarrow> context_of_json (JObj [])),
      w_Stack = (case members j ''stacktrace'' of Some (JArr fs) \<Rightarrow> map frame_of_json fs | _ \<Rightarrow> []),
      w_Timestamp = as_int (members j ''timestamp''), w_ModuleID = as_str (members j ''module_id''),
      w_EventType = as_str (members j ''event_type'')\<rparr>"

definition details_by_key :: "wire \<Rightarrow> wire" where
  "details_by_key w = w\<lparr>w_Ctx := (w_Ctx w)\<lparr>ctx_Details := sorted_pairs (ctx_Details (w_Ctx w))\<rparr>\<rparr>"

lemma frame_of_frame_json [simp]: "frame_of_json (frame_json f) = f"
  by (simp add: frame_of_json_def frame_json_def always_def as_str_def as_int_def)

lemma context_of_context_json: "context_of_json (context_json c) = c\<lparr>ctx_Details := sorted_pairs (ctx_Details c)\<rparr>"
  by (simp add: context_of_json_def context_json_def omitempty_def as_str_def as_map_def [of None])

lemma wire_of_wire_json: "wire_of_json (wire_json w) = details_by_key w"
  by (simp add: wire_of_json_def wire_json_def always_def omitempty_def as_str_def as_int_def details_by_key_def
      context_of_context_json comp_def)



end
