(* ===== verification/Grim_Lockdown.thy ===== *)
theory Grim_Lockdown
  imports Grim_Errors
begin

text \<open>
  \<open>engine/security/lockdown.go\<close>: the progressive lockout. Each method runs under the mutex, so
  it is one atomic step of the manager. The clock reading of a call and the stack its error
  captures come from the environment; the \<open>onHard\<close> callback is an effect of the step, reported
  as the number of times it is invoked. The last section translates the methods with the mutex and
  the callback as actions, and shows when a method is the atomic step and when it never returns.
\<close>

section \<open>State\<close>

datatype LockdownState = LockdownNone | LockdownSoft | LockdownHard

fun LockdownState_int :: "LockdownState \<Rightarrow> int" where
  "LockdownState_int LockdownNone = 0"
| "LockdownState_int LockdownSoft = 1"
| "LockdownState_int LockdownHard = 2"

lemma LockdownState_int_inject [simp]: "LockdownState_int a = LockdownState_int b \<longleftrightarrow> a = b"
  by (cases a; cases b) auto

text \<open>The severity order of the levels is the order of their integer values.\<close>

instantiation LockdownState :: linorder
begin

definition less_eq_LockdownState :: "LockdownState \<Rightarrow> LockdownState \<Rightarrow> bool" where
  "less_eq_LockdownState a b \<longleftrightarrow> LockdownState_int a \<le> LockdownState_int b"

definition less_LockdownState :: "LockdownState \<Rightarrow> LockdownState \<Rightarrow> bool" where
  "less_LockdownState a b \<longleftrightarrow> LockdownState_int a < LockdownState_int b"

instance
  by standard (auto simp: less_eq_LockdownState_def less_LockdownState_def)

end

record lockdownManager =
  failures :: int
  threshold :: int
  overridesLeft :: int
  maxOverrides :: int
  lockdownUntil :: time
  lockdownMinutes :: int
  state :: LockdownState
  onHard :: bool

record LockdownConfig =
  cfg_Threshold :: int
  cfg_MaxOverrides :: int
  cfg_LockdownMinutes :: int
  cfg_OnHard :: bool

section \<open>Operations\<close>

definition NewLockdownManager :: "LockdownConfig \<Rightarrow> lockdownManager" where
  "NewLockdownManager cfg =
     (let t = (if cfg_Threshold cfg \<le> 0 then 3 else cfg_Threshold cfg);
          mo = (if cfg_MaxOverrides cfg \<le> 0 then 4 else cfg_MaxOverrides cfg);
          lm = (if cfg_LockdownMinutes cfg \<le> 0 then 200 else cfg_LockdownMinutes cfg)
      in \<lparr>failures = 0, threshold = t, overridesLeft = mo, maxOverrides = mo,
          lockdownUntil = zeroTime, lockdownMinutes = lm, state = LockdownNone,
          onHard = cfg_OnHard cfg\<rparr>)"

text \<open>The result of \<open>RecordFailure\<close>: the new state, the values returned, the callback calls.\<close>

definition RecordFailure ::
  "env \<Rightarrow> lockdownManager \<Rightarrow> lockdownManager \<times> (LockdownState \<times> GrimlockError) \<times> nat" where
  "RecordFailure en m =
     (case state m of
        LockdownHard \<Rightarrow> (m, (LockdownHard, NewAuthLockdownError en 0), 0)
      | LockdownSoft \<Rightarrow>
          (let m = m\<lparr>overridesLeft := overridesLeft m - 1\<rparr> in
           if overridesLeft m \<le> 0
           then (m\<lparr>state := LockdownHard\<rparr>, (LockdownHard, NewAuthLockdownError en 0), of_bool (onHard m))
           else (m, (LockdownSoft, NewAuthLockdownError en (overridesLeft m)), 0))
      | LockdownNone \<Rightarrow>
          (let m = m\<lparr>failures := failures m + 1\<rparr> in
           if failures m \<ge> threshold m
           then (m\<lparr>state := LockdownSoft,
                   lockdownUntil := env_now en + wrap64 (lockdownMinutes m * Minute)\<rparr>,
                 (LockdownSoft, NewAuthLockdownError en 0), 0)
           else (m, (LockdownNone,
                     WithDetails (NewAuthInvalidError en ''credentials'' None) ''attempts_remaining''
                       (AnyInt (threshold m - failures m))), 0)))"

definition RecordSuccess :: "lockdownManager \<Rightarrow> lockdownManager" where
  "RecordSuccess m =
     m\<lparr>failures := 0, overridesLeft := maxOverrides m, state := LockdownNone, lockdownUntil := zeroTime\<rparr>"

definition State :: "time \<Rightarrow> lockdownManager \<Rightarrow> lockdownManager \<times> LockdownState" where
  "State now m =
     (let m = (if state m = LockdownSoft \<and> lockdownUntil m < now
               then m\<lparr>state := LockdownNone, failures := 0, overridesLeft := maxOverrides m\<rparr>
               else m)
      in (m, state m))"

definition RemainingAttempts :: "lockdownManager \<Rightarrow> int" where
  "RemainingAttempts m =
     (case state m of
        LockdownSoft \<Rightarrow> overridesLeft m
      | LockdownHard \<Rightarrow> 0
      | LockdownNone \<Rightarrow> threshold m - failures m)"

definition LockdownUntil :: "lockdownManager \<Rightarrow> time" where
  "LockdownUntil m = lockdownUntil m"

definition TriggerHard :: "lockdownManager \<Rightarrow> lockdownManager \<times> nat" where
  "TriggerHard m = (m\<lparr>state := LockdownHard\<rparr>, of_bool (onHard m))"

section \<open>Sequences of calls\<close>

datatype lockdown_op = OpFailure env | OpSuccess | OpState time | OpTriggerHard

fun lockdown_step :: "lockdownManager \<Rightarrow> lockdown_op \<Rightarrow> lockdownManager" where
  "lockdown_step m (OpFailure en) = fst (RecordFailure en m)"
| "lockdown_step m OpSuccess = RecordSuccess m"
| "lockdown_step m (OpState now) = fst (State now m)"
| "lockdown_step m OpTriggerHard = fst (TriggerHard m)"

fun hard_calls :: "lockdownManager \<Rightarrow> lockdown_op \<Rightarrow> nat" where
  "hard_calls m (OpFailure en) = snd (snd (RecordFailure en m))"
| "hard_calls m OpTriggerHard = snd (TriggerHard m)"
| "hard_calls m _ = 0"

definition counted_step :: "lockdownManager \<times> nat \<Rightarrow> lockdown_op \<Rightarrow> lockdownManager \<times> nat" where
  "counted_step mc oper = (lockdown_step (fst mc) oper, snd mc + hard_calls (fst mc) oper)"

definition lockdown_inv :: "lockdownManager \<Rightarrow> bool" where
  "lockdown_inv m \<longleftrightarrow>
     0 < threshold m \<and> 0 < maxOverrides m \<and> 0 < lockdownMinutes m \<and>
     0 \<le> failures m \<and> failures m \<le> threshold m \<and>
     0 \<le> overridesLeft m \<and> overridesLeft m \<le> maxOverrides m \<and>
     (state m = LockdownNone \<longrightarrow> failures m < threshold m \<and> overridesLeft m = maxOverrides m) \<and>
     (state m = LockdownSoft \<longrightarrow> failures m = threshold m \<and> 0 < overridesLeft m)"

lemmas lockdown_defs =
  RecordFailure_def RecordSuccess_def State_def TriggerHard_def RemainingAttempts_def Let_def

lemma lockdown_inv_New [simp]: "lockdown_inv (NewLockdownManager cfg)"
  by (simp add: NewLockdownManager_def lockdown_inv_def Let_def)

lemma lockdown_inv_step: "lockdown_inv m \<Longrightarrow> lockdown_inv (lockdown_step m oper)"
  by (cases oper; cases "state m") (auto simp: lockdown_defs lockdown_inv_def)

interpretation lockdown: op_system lockdown_step lockdown_inv
  by unfold_locales (rule lockdown_inv_step)

lemma RemainingAttempts_bounds:
  "lockdown_inv m \<Longrightarrow>
   0 \<le> RemainingAttempts m \<and> RemainingAttempts m \<le> max (threshold m) (maxOverrides m) \<and>
   (RemainingAttempts m = 0 \<longleftrightarrow> state m = LockdownHard)"
  by (cases "state m") (auto simp: lockdown_inv_def RemainingAttempts_def)

lemma config_step [simp]:
  "threshold (lockdown_step m oper) = threshold m"
  "maxOverrides (lockdown_step m oper) = maxOverrides m"
  "lockdownMinutes (lockdown_step m oper) = lockdownMinutes m"
  "onHard (lockdown_step m oper) = onHard m"
  by (cases oper; cases "state m"; auto simp: lockdown_defs)+

lemma counted_step_simps [simp]:
  "fst (counted_step mc oper) = lockdown_step (fst mc) oper"
  "snd (counted_step mc oper) = snd mc + hard_calls (fst mc) oper"
  by (simp_all add: counted_step_def)


section \<open>Escalation\<close>

definition escalation :: "lockdownManager \<Rightarrow> int \<Rightarrow> LockdownState" where
  "escalation m n =
     (if n < threshold m then LockdownNone
      else if n < threshold m + maxOverrides m then LockdownSoft else LockdownHard)"

text \<open>The manager after \<open>n\<close> consecutive failures, in closed form.\<close>

definition escalated :: "lockdownManager \<Rightarrow> lockdownManager \<Rightarrow> int \<Rightarrow> bool" where
  "escalated m0 m n \<longleftrightarrow>
     threshold m = threshold m0 \<and> maxOverrides m = maxOverrides m0 \<and> onHard m = onHard m0 \<and>
     state m = escalation m0 n \<and> failures m = min n (threshold m0) \<and>
     overridesLeft m = max 0 (min (maxOverrides m0) (threshold m0 + maxOverrides m0 - n))"

lemma escalated_step:
  assumes "lockdown_inv m0" "0 \<le> n" "escalated m0 m n"
  shows "escalated m0 (lockdown_step m (OpFailure en)) (n + 1)"
    and "hard_calls m (OpFailure en) = of_bool (onHard m0 \<and> n + 1 = threshold m0 + maxOverrides m0)"
  using assms
  by (auto simp: escalated_def escalation_def lockdown_defs lockdown_inv_def min_def max_def
      split: if_splits)

lemma escalated_run:
  assumes "lockdown_inv m0" "state m0 = LockdownNone" "failures m0 = 0"
  shows "escalated m0 (fst (run counted_step (m0, 0) (map OpFailure ens))) (int (length ens)) \<and>
    snd (run counted_step (m0, 0) (map OpFailure ens)) =
      of_bool (onHard m0 \<and> threshold m0 + maxOverrides m0 \<le> int (length ens))"
proof (induction ens rule: rev_induct)
  case Nil
  then show ?case
    using assms by (auto simp: escalated_def escalation_def lockdown_inv_def)
next
  case (snoc en ens)
  let ?m = "fst (run counted_step (m0, 0) (map OpFailure ens))"
  have e: "escalated m0 ?m (int (length ens))"
    using snoc by blast
  show ?case
    using snoc escalated_step [OF assms(1) _ e, of en]
    by (auto simp: algebra_simps)
qed


text \<open>
  C34. The invariant of the lockout. After any sequence of calls on a new manager the counters
  are within the configured limits and agree with the state; the attempts reported are between
  zero and the larger limit, and zero exactly in hard lockdown.
\<close>

theorem lockdown_reachable_inv:
  "let m = run lockdown_step (NewLockdownManager cfg) ops in
   lockdown_inv m \<and> 0 \<le> RemainingAttempts m \<and>
   RemainingAttempts m \<le> max (threshold m) (maxOverrides m) \<and>
   (RemainingAttempts m = 0 \<longleftrightarrow> state m = LockdownHard)"
  unfolding Let_def
  using lockdown.run_inv [OF lockdown_inv_New] RemainingAttempts_bounds by blast

section \<open>Leaving a lockdown\<close>

lemma hard_stable:
  "state m = LockdownHard \<Longrightarrow> oper \<noteq> OpSuccess \<Longrightarrow> state (lockdown_step m oper) = LockdownHard"
  by (cases oper) (auto simp: lockdown_defs)

text \<open>
  C16. Permanence. Hard lockdown is left only by a recorded success: while none is recorded, no sequence of
  failures, polls, triggers or elapsed time changes it, and every further failure is answered
  with the lockout error.
\<close>

theorem hard_lockdown_permanent:
  assumes "lockdown_inv m" "state m = LockdownHard" "OpSuccess \<notin> set ops"
  defines "m' \<equiv> run lockdown_step m ops"
  shows "snd (State now m') = LockdownHard \<and>
    fst (snd (RecordFailure en m')) = (LockdownHard, NewAuthLockdownError en 0)"
proof -
  have "state m' = LockdownHard"
    unfolding m'_def
    by (rule lockdown.run_stable [where P = "\<lambda>m. state m = LockdownHard" and Q = "\<lambda>oper. oper \<noteq> OpSuccess"])
      (use assms hard_stable in auto)
  then show ?thesis
    by (simp add: lockdown_defs)
qed

abbreviation test_config :: LockdownConfig where
  "test_config \<equiv> \<lparr>cfg_Threshold = 0, cfg_MaxOverrides = 0, cfg_LockdownMinutes = 0, cfg_OnHard = True\<rparr>"

theorem hard_lockdown_permanent_witness:
  "snd (State 9 (run lockdown_step (fst (TriggerHard (NewLockdownManager test_config))) [OpState 7])) =
     LockdownHard"
proof -
  have "lockdown_inv (fst (TriggerHard (NewLockdownManager test_config)))"
    using lockdown_inv_step [OF lockdown_inv_New, of _ OpTriggerHard] by simp
  then show ?thesis
    using hard_lockdown_permanent [of "fst (TriggerHard (NewLockdownManager test_config))" "[OpState 7]" 9]
    by (simp add: TriggerHard_def)
qed

text \<open>
  C35. The soft window. The failure that reaches the threshold at time \<open>t\<close> opens a window of the
  configured minutes; a poll inside it reports soft lockdown and changes nothing, and a poll
  after it restores the manager to its initial state, the recorded end of the window apart. The
  bound is the largest number of minutes an \<open>int64\<close> duration of nanoseconds can hold.
\<close>

theorem soft_window:
  fixes en
  assumes "lockdown_inv m" "state m = LockdownNone" "failures m + 1 = threshold m"
    and "lockdownMinutes m \<le> maxMinutes"
  defines "m' \<equiv> fst (RecordFailure en m)"
  defines "until \<equiv> env_now en + lockdownMinutes m * Minute"
  shows "state m' = LockdownSoft \<and> LockdownUntil m' = until \<and>
    (if now \<le> until then State now m' = (m', LockdownSoft)
     else State now m' = (m\<lparr>failures := 0, lockdownUntil := until\<rparr>, LockdownNone))"
proof -
  have "wrap64 (lockdownMinutes m * Minute) = lockdownMinutes m * Minute"
    using assms by (intro wrap64_minutes) (auto simp: lockdown_inv_def)
  moreover have "overridesLeft m = maxOverrides m"
    using assms by (simp add: lockdown_inv_def)
  ultimately show ?thesis
    using assms(2,3) by (auto simp: m'_def until_def lockdown_defs LockdownUntil_def)
qed

definition one_failure_left :: lockdownManager where
  "one_failure_left = (NewLockdownManager test_config)\<lparr>failures := 2\<rparr>"

theorem soft_window_witness:
  "snd (State (200 * Minute + 1)
     (fst (RecordFailure \<lparr>env_now = 0, env_stack = []\<rparr> one_failure_left))) = LockdownNone"
proof -
  have "lockdown_inv one_failure_left" "state one_failure_left = LockdownNone"
    "failures one_failure_left + 1 = threshold one_failure_left"
    "lockdownMinutes one_failure_left \<le> maxMinutes" "lockdownMinutes one_failure_left = 200"
    by (simp_all add: one_failure_left_def NewLockdownManager_def lockdown_inv_def Let_def maxMinutes_def)
  then show ?thesis
    using soft_window [of one_failure_left "\<lparr>env_now = 0, env_stack = []\<rparr>" "200 * Minute + 1"]
    by simp
qed

text \<open>
  A recorded failure never lowers the lockout level, whatever the clock says: the soft
  window is left through \<open>State\<close> or \<open>RecordSuccess\<close> only, so a failure after the window has
  elapsed still uses up an override.
\<close>

theorem RecordFailure_monotone:
  "state m \<le> state (fst (RecordFailure en m)) \<and>
   fst (fst (snd (RecordFailure en m))) = state (fst (RecordFailure en m)) \<and>
   overridesLeft (fst (RecordFailure en m)) = overridesLeft m - of_bool (state m = LockdownSoft)"
  by (cases "state m") (auto simp: lockdown_defs less_eq_LockdownState_def)

section \<open>The mutex and the callback\<close>

text \<open>
  The methods once more, with the mutex they take. An action runs on the manager and its mutex and
  returns a value, waits for ever, or ends in the fatal error of \<open>sync.Mutex\<close>. A Go mutex is not
  reentrant: a goroutine that locks a mutex it holds waits for ever. The callback is an arbitrary
  action of the same goroutine.
\<close>

record guarded =
  mu_locked :: bool
  manager :: lockdownManager

datatype 'a outcome = Returns 'a guarded | Deadlock | UnlockOfUnlocked

type_synonym 'a action = "guarded \<Rightarrow> 'a outcome"

definition ret :: "'a \<Rightarrow> 'a action" where
  "ret x = (\<lambda>g. Returns x g)"

definition and_then :: "'a action \<Rightarrow> ('a \<Rightarrow> 'b action) \<Rightarrow> 'b action" where
  "and_then act f =
     (\<lambda>g. case act g of
        Returns x g \<Rightarrow> f x g
      | Deadlock \<Rightarrow> Deadlock
      | UnlockOfUnlocked \<Rightarrow> UnlockOfUnlocked)"

definition fields :: "lockdownManager action" where
  "fields = (\<lambda>g. Returns (manager g) g)"

definition assign :: "(lockdownManager \<Rightarrow> lockdownManager) \<Rightarrow> unit action" where
  "assign f = (\<lambda>g. Returns () (g\<lparr>manager := f (manager g)\<rparr>))"

definition mu_Lock :: "unit action" where
  "mu_Lock = (\<lambda>g. if mu_locked g then Deadlock else Returns () (g\<lparr>mu_locked := True\<rparr>))"

definition mu_Unlock :: "unit action" where
  "mu_Unlock = (\<lambda>g. if mu_locked g then Returns () (g\<lparr>mu_locked := False\<rparr>) else UnlockOfUnlocked)"

text \<open>\<open>m.mu.Lock(); defer m.mu.Unlock()\<close> before the body of a method\<close>

definition locked :: "'a action \<Rightarrow> 'a action" where
  "locked body =
     and_then mu_Lock (\<lambda>_. and_then body (\<lambda>r. and_then mu_Unlock (\<lambda>_. ret r)))"

text \<open>\<open>if m.onHard != nil { m.onHard() }\<close>\<close>

definition call_onHard :: "unit action \<Rightarrow> unit action" where
  "call_onHard cb = and_then fields (\<lambda>m. if onHard m then cb else ret ())"

definition RecordFailure_mu :: "unit action \<Rightarrow> env \<Rightarrow> (LockdownState \<times> GrimlockError) action" where
  "RecordFailure_mu cb en =
     locked (and_then fields (\<lambda>m. case state m of
         LockdownHard \<Rightarrow> ret (LockdownHard, NewAuthLockdownError en 0)
       | LockdownSoft \<Rightarrow>
           and_then (assign (\<lambda>m. m\<lparr>overridesLeft := overridesLeft m - 1\<rparr>)) (\<lambda>_.
           and_then fields (\<lambda>m.
           if overridesLeft m \<le> 0 then
             and_then (assign (\<lambda>m. m\<lparr>state := LockdownHard\<rparr>)) (\<lambda>_.
             and_then (call_onHard cb) (\<lambda>_.
             ret (LockdownHard, NewAuthLockdownError en 0)))
           else ret (LockdownSoft, NewAuthLockdownError en (overridesLeft m))))
       | LockdownNone \<Rightarrow>
           and_then (assign (\<lambda>m. m\<lparr>failures := failures m + 1\<rparr>)) (\<lambda>_.
           and_then fields (\<lambda>m.
           if failures m \<ge> threshold m then
             and_then (assign (\<lambda>m. m\<lparr>state := LockdownSoft\<rparr>)) (\<lambda>_.
             and_then (assign (\<lambda>m. m\<lparr>lockdownUntil := env_now en + wrap64 (lockdownMinutes m * Minute)\<rparr>)) (\<lambda>_.
             ret (LockdownSoft, NewAuthLockdownError en 0)))
           else
             ret (LockdownNone,
               WithDetails (NewAuthInvalidError en ''credentials'' None) ''attempts_remaining''
                 (AnyInt (threshold m - failures m)))))))"

definition RecordSuccess_mu :: "unit action" where
  "RecordSuccess_mu =
     locked (
       and_then (assign (\<lambda>m. m\<lparr>failures := 0\<rparr>)) (\<lambda>_.
       and_then (assign (\<lambda>m. m\<lparr>overridesLeft := maxOverrides m\<rparr>)) (\<lambda>_.
       and_then (assign (\<lambda>m. m\<lparr>state := LockdownNone\<rparr>)) (\<lambda>_.
       assign (\<lambda>m. m\<lparr>lockdownUntil := zeroTime\<rparr>)))))"

definition State_mu :: "time \<Rightarrow> LockdownState action" where
  "State_mu now =
     locked (
       and_then fields (\<lambda>m.
       and_then
         (if state m = LockdownSoft \<and> lockdownUntil m < now then
            and_then (assign (\<lambda>m. m\<lparr>state := LockdownNone\<rparr>)) (\<lambda>_.
            and_then (assign (\<lambda>m. m\<lparr>failures := 0\<rparr>)) (\<lambda>_.
            assign (\<lambda>m. m\<lparr>overridesLeft := maxOverrides m\<rparr>)))
          else ret ()) (\<lambda>_.
       and_then fields (\<lambda>m. ret (state m)))))"

definition RemainingAttempts_mu :: "int action" where
  "RemainingAttempts_mu =
     locked (and_then fields (\<lambda>m. case state m of
         LockdownSoft \<Rightarrow> ret (overridesLeft m)
       | LockdownHard \<Rightarrow> ret 0
       | LockdownNone \<Rightarrow> ret (threshold m - failures m)))"

definition LockdownUntil_mu :: "time action" where
  "LockdownUntil_mu = locked (and_then fields (\<lambda>m. ret (lockdownUntil m)))"

definition TriggerHard_mu :: "unit action \<Rightarrow> unit action" where
  "TriggerHard_mu cb =
     and_then mu_Lock (\<lambda>_.
     and_then (assign (\<lambda>m. m\<lparr>state := LockdownHard\<rparr>)) (\<lambda>_.
     and_then mu_Unlock (\<lambda>_.
     call_onHard cb)))"

text \<open>A call of any method, as one call of a callback, and its effect as an atomic step.\<close>

datatype manager_call = CallState time | CallRemaining | CallUntil | CallSuccess
  | CallFailure env | CallTriggerHard

fun perform :: "unit action \<Rightarrow> manager_call \<Rightarrow> unit action" where
  "perform cb (CallState now) = and_then (State_mu now) (\<lambda>_. ret ())"
| "perform cb CallRemaining = and_then RemainingAttempts_mu (\<lambda>_. ret ())"
| "perform cb CallUntil = and_then LockdownUntil_mu (\<lambda>_. ret ())"
| "perform cb CallSuccess = RecordSuccess_mu"
| "perform cb (CallFailure en) = and_then (RecordFailure_mu cb en) (\<lambda>_. ret ())"
| "perform cb CallTriggerHard = TriggerHard_mu cb"

fun atomic_effect :: "manager_call \<Rightarrow> lockdownManager \<Rightarrow> lockdownManager" where
  "atomic_effect (CallState now) m = fst (State now m)"
| "atomic_effect CallSuccess m = RecordSuccess m"
| "atomic_effect (CallFailure en) m = fst (RecordFailure en m)"
| "atomic_effect CallTriggerHard m = fst (TriggerHard m)"
| "atomic_effect _ m = m"

abbreviation free :: "lockdownManager \<Rightarrow> guarded" where
  "free m \<equiv> \<lparr>mu_locked = False, manager = m\<rparr>"

lemmas action_defs = ret_def and_then_def fields_def assign_def mu_Lock_def mu_Unlock_def locked_def call_onHard_def

text \<open>Every method locks first: on a manager whose mutex is held it waits for ever.\<close>

lemma locked_held [simp]: "mu_locked g \<Longrightarrow> locked body g = Deadlock"
  by (simp add: action_defs)

lemma perform_held: "mu_locked g \<Longrightarrow> perform cb c g = Deadlock"
  by (cases c)
    (simp_all add: State_mu_def RemainingAttempts_mu_def LockdownUntil_mu_def RecordSuccess_mu_def
      RecordFailure_mu_def TriggerHard_mu_def and_then_def mu_Lock_def)

text \<open>What a failure does with the mutex: the callback runs with the mutex held, or not at all.\<close>

lemma RecordFailure_mu_result:
  "RecordFailure_mu cb en (free m) =
     (let (m', res, calls) = RecordFailure en m in
      if calls = 0 then Returns res (free m')
      else (case cb \<lparr>mu_locked = True, manager = m'\<rparr> of
              Returns _ g \<Rightarrow>
                if mu_locked g then Returns res (g\<lparr>mu_locked := False\<rparr>) else UnlockOfUnlocked
            | Deadlock \<Rightarrow> Deadlock
            | UnlockOfUnlocked \<Rightarrow> UnlockOfUnlocked))"
  by (cases "state m")
    (auto simp: RecordFailure_mu_def action_defs RecordFailure_def Let_def split: outcome.split)

lemma quiet_calls:
  "State_mu now (free m) = Returns (snd (State now m)) (free (fst (State now m)))"
  "RemainingAttempts_mu (free m) = Returns (RemainingAttempts m) (free m)"
  "LockdownUntil_mu (free m) = Returns (LockdownUntil m) (free m)"
  "RecordSuccess_mu (free m) = Returns () (free (RecordSuccess m))"
  "TriggerHard_mu cb (free m) =
     (if onHard m then cb (free (m\<lparr>state := LockdownHard\<rparr>)) else Returns () (free (m\<lparr>state := LockdownHard\<rparr>)))"
  by (cases "state m";
      simp add: State_mu_def RemainingAttempts_mu_def LockdownUntil_mu_def RecordSuccess_mu_def
        TriggerHard_mu_def action_defs lockdown_defs LockdownUntil_def)+

lemma perform_ret: "perform (ret ()) c (free m) = Returns () (free (atomic_effect c m))"
  by (cases c)
    (auto simp: and_then_def quiet_calls RecordFailure_mu_result ret_def TriggerHard_def Let_def
      split: prod.split)

lemma perform_hard:
  "state m = LockdownHard \<Longrightarrow> c \<noteq> CallTriggerHard \<Longrightarrow>
   perform cb c (free m) = Returns () (free (atomic_effect c m))"
  by (cases c) (auto simp: and_then_def quiet_calls RecordFailure_mu_result ret_def RecordFailure_def)

text \<open>
  C36. The callback runs under the mutex. When the callback \<open>onHard\<close> calls any method of the manager,
  whatever it does afterwards, recording a failure waits for ever exactly when the failure uses up
  the last override of a manager with a callback, and has its usual result and effect otherwise;
  \<open>TriggerHard\<close> releases the mutex first, so the same callback runs on the unlocked manager in hard
  lockdown and its call returns, unless it calls \<open>TriggerHard\<close> and thus itself. With a callback that does not call the manager every method returns, with the effect of
  its atomic step, and leaves the mutex unlocked.
\<close>

theorem callback_under_mutex:
  fixes c k
  defines "onHard_calls cb \<equiv> and_then (perform cb c) k"
  shows "RecordFailure_mu (onHard_calls cb) en (free m) =
      (if onHard m \<and> state m = LockdownSoft \<and> overridesLeft m \<le> 1 then Deadlock
       else Returns (fst (snd (RecordFailure en m))) (free (fst (RecordFailure en m)))) \<and>
    (c = CallTriggerHard \<or>
     TriggerHard_mu (onHard_calls cb) (free m) =
      (let m' = m\<lparr>state := LockdownHard\<rparr>
       in if onHard m then k () (free (atomic_effect c m')) else Returns () (free m'))) \<and>
    perform (ret ()) c (free m) = Returns () (free (atomic_effect c m))"
proof (intro conjI)
  have held: "onHard_calls cb g = Deadlock" if "mu_locked g" for g
    using that by (simp add: onHard_calls_def and_then_def perform_held)
  show "RecordFailure_mu (onHard_calls cb) en (free m) =
      (if onHard m \<and> state m = LockdownSoft \<and> overridesLeft m \<le> 1 then Deadlock
       else Returns (fst (snd (RecordFailure en m))) (free (fst (RecordFailure en m))))"
    by (cases "state m") (auto simp: RecordFailure_mu_result held RecordFailure_def Let_def)
  show "c = CallTriggerHard \<or>
     TriggerHard_mu (onHard_calls cb) (free m) =
      (let m' = m\<lparr>state := LockdownHard\<rparr>
       in if onHard m then k () (free (atomic_effect c m')) else Returns () (free m'))"
    by (simp add: quiet_calls onHard_calls_def and_then_def perform_hard disj_imp)
  show "perform (ret ()) c (free m) = Returns () (free (atomic_effect c m))"
    by (rule perform_ret)
qed

end
