(* ===== verification/Grim_Sha256.thy ===== *)
theory Grim_Sha256
  imports Grim_Prelude
begin

text \<open>
  \<open>crypto/sha256\<close> of the Go standard library as the repository uses it: the digest of a byte
  sequence (FIPS 180-4). Writing to the hash in several pieces is hashing their concatenation.
\<close>

text \<open>
  The constants of the standard are the first 32 bits of the fractional parts of the cube and the
  square roots of the first primes. \<open>root_bits\<close> finds the integer root bit by bit; the roots needed
  are below 8, so with 32 fractional bits they have at most 35 bits.
\<close>

fun root_bits :: "nat \<Rightarrow> int \<Rightarrow> nat \<Rightarrow> int \<Rightarrow> int" where
  "root_bits e x 0 r = r"
| "root_bits e x (Suc n) r = root_bits e x n (if (r + 2 ^ n) ^ e \<le> x then r + 2 ^ n else r)"

definition root_fraction :: "nat \<Rightarrow> int \<Rightarrow> 32 word" where
  "root_fraction e p = word_of_int (root_bits e (p * 2 ^ (32 * e)) 35 0)"

definition small_primes :: "int list" where
  "small_primes = filter (\<lambda>n. list_all (\<lambda>d. n mod d \<noteq> 0) [2..n - 1]) [2..311]"

definition sha256_K :: "32 word list" where
  "sha256_K = map (root_fraction 3) small_primes"

record sha_state =
  sa :: "32 word"
  sb :: "32 word"
  sc :: "32 word"
  sd :: "32 word"
  se :: "32 word"
  sf :: "32 word"
  sg :: "32 word"
  sh :: "32 word"

definition sha256_init :: sha_state where
  "sha256_init =
     \<lparr>sa = root_fraction 2 2, sb = root_fraction 2 3, sc = root_fraction 2 5, sd = root_fraction 2 7,
      se = root_fraction 2 11, sf = root_fraction 2 13, sg = root_fraction 2 17, sh = root_fraction 2 19\<rparr>"

definition rotr :: "nat \<Rightarrow> 32 word \<Rightarrow> 32 word" where
  "rotr n x = drop_bit n x OR push_bit (32 - n) x"

definition sha256_pad :: "byte list \<Rightarrow> byte list" where
  "sha256_pad m =
     m @ [0x80] @ replicate ((119 - length m mod 64) mod 64) 0 @ be64 (word_of_nat (8 * length m))"

fun words_be :: "byte list \<Rightarrow> 32 word list" where
  "words_be (a # b # c # d # bs) = word_rcat [a, b, c, d] # words_be bs"
| "words_be _ = []"

text \<open>The message schedule: sixteen words of the block, then forty-eight derived ones.\<close>

primrec sha256_extend :: "nat \<Rightarrow> 32 word list \<Rightarrow> 32 word list" where
  "sha256_extend 0 w = w"
| "sha256_extend (Suc n) w =
     (let t = length w;
          x = w ! (t - 15);
          y = w ! (t - 2);
          s0 = rotr 7 x XOR rotr 18 x XOR drop_bit 3 x;
          s1 = rotr 17 y XOR rotr 19 y XOR drop_bit 10 y
      in sha256_extend n (w @ [w ! (t - 16) + s0 + w ! (t - 7) + s1]))"

definition sha256_round :: "sha_state \<Rightarrow> 32 word \<times> 32 word \<Rightarrow> sha_state" where
  "sha256_round s kw =
     (let s1 = rotr 6 (se s) XOR rotr 11 (se s) XOR rotr 25 (se s);
          ch = (se s AND sf s) XOR (NOT (se s) AND sg s);
          t1 = sh s + s1 + ch + fst kw + snd kw;
          s0 = rotr 2 (sa s) XOR rotr 13 (sa s) XOR rotr 22 (sa s);
          maj = (sa s AND sb s) XOR (sa s AND sc s) XOR (sb s AND sc s);
          t2 = s0 + maj
      in \<lparr>sa = t1 + t2, sb = sa s, sc = sb s, sd = sc s,
          se = sd s + t1, sf = se s, sg = sf s, sh = sg s\<rparr>)"

definition sha256_block :: "sha_state \<Rightarrow> byte list \<Rightarrow> sha_state" where
  "sha256_block s block =
     (let w = sha256_extend 48 (words_be block);
          r = foldl sha256_round s (zip sha256_K w)
      in \<lparr>sa = sa s + sa r, sb = sb s + sb r, sc = sc s + sc r, sd = sd s + sd r,
          se = se s + se r, sf = sf s + sf r, sg = sg s + sg r, sh = sh s + sh r\<rparr>)"

fun sha256_blocks :: "nat \<Rightarrow> sha_state \<Rightarrow> byte list \<Rightarrow> sha_state" where
  "sha256_blocks 0 s m = s"
| "sha256_blocks (Suc n) s m = sha256_blocks n (sha256_block s (take 64 m)) (drop 64 m)"

definition sha256 :: "byte list \<Rightarrow> byte list" where
  "sha256 m =
     (let p = sha256_pad m;
          s = sha256_blocks (length p div 64) sha256_init p
      in concat (map be32 [sa s, sb s, sc s, sd s, se s, sf s, sg s, sh s]))"

lemma length_sha256 [simp]: "length (sha256 m) = 32"
  by (simp add: sha256_def Let_def)

end
