(* ===== verification/Grim_Audit.thy ===== *)
theory Grim_Audit
  imports Grim_Sha256
begin

text \<open>
  \<open>engine/security/audit.go\<close>: the bounded, hash-chained audit log. The ring buffer is modelled
  slot by slot and refined to the list of the retained events. \<open>Append\<close> stores a slice of the
  log's own \<open>lastHash\<close> array in \<open>PrevHash\<close>, not a copy, so that field is modelled as a
  reference and read through the log.
\<close>

section \<open>State\<close>

text \<open>A byte slice with its own backing array, or the slice of the log's \<open>lastHash\<close> array.\<close>

datatype hash_slice = OwnSlice "byte list" | LastHashSlice

record SecurityEvent =
  Timestamp :: "64 word"
  Level :: string
  Module :: string
  Message :: string
  SubjectID :: string
  PrevHash :: hash_slice
  Hash :: "byte list"

record ringAuditLog =
  ring :: "SecurityEvent list"
  cap :: nat
  head :: nat
  size :: nat
  lastHash :: "byte list"

definition zeroEvent :: SecurityEvent where
  "zeroEvent = \<lparr>Timestamp = 0, Level = '''', Module = '''', Message = '''', SubjectID = '''',
     PrevHash = OwnSlice [], Hash = []\<rparr>"

fun read_slice :: "ringAuditLog \<Rightarrow> hash_slice \<Rightarrow> byte list" where
  "read_slice a (OwnSlice bs) = bs"
| "read_slice a LastHashSlice = lastHash a"

section \<open>Operations\<close>

definition NewAuditLog :: "int \<Rightarrow> ringAuditLog" where
  "NewAuditLog capacity =
     (let c = nat (if capacity \<le> 0 then 1024 else capacity)
      in \<lparr>ring = replicate c zeroEvent, cap = c, head = 0, size = 0, lastHash = replicate 32 0\<rparr>)"

text \<open>What is hashed after the previous hash.\<close>

definition event_bytes :: "SecurityEvent \<Rightarrow> byte list" where
  "event_bytes e =
     be64 (Timestamp e) @ bytes_of (Level e) @ bytes_of (Module e) @ bytes_of (Message e) @
     bytes_of (SubjectID e)"

definition stamp :: "time \<Rightarrow> SecurityEvent \<Rightarrow> SecurityEvent" where
  "stamp now e = (if Timestamp e = 0 then e\<lparr>Timestamp := word_of_int now\<rparr> else e)"

definition Append :: "time \<Rightarrow> SecurityEvent \<Rightarrow> ringAuditLog \<Rightarrow> ringAuditLog" where
  "Append now e a =
     (let e = stamp now e;
          e = e\<lparr>PrevHash := LastHashSlice\<rparr>;
          e = e\<lparr>Hash := sha256 (lastHash a @ event_bytes e)\<rparr>;
          a = a\<lparr>lastHash := Hash e\<rparr>;
          idx = (head a + size a) mod cap a;
          a = a\<lparr>ring := (ring a)[idx := e]\<rparr>
      in if size a < cap a then a\<lparr>size := size a + 1\<rparr>
         else a\<lparr>head := (head a + 1) mod cap a\<rparr>)"

text \<open>\<open>make\<close> with a negative length panics: the value \<open>None\<close>.\<close>

definition Recent :: "int \<Rightarrow> ringAuditLog \<Rightarrow> SecurityEvent list option" where
  "Recent n a =
     (let n = (if n > int (size a) then int (size a) else n) in
      if n < 0 then None
      else
        let n = nat n;
            start = (head a + size a - n + cap a) mod cap a
        in Some (map (\<lambda>i. ring a ! ((start + i) mod cap a)) [0..<n]))"

definition Drain :: "ringAuditLog \<Rightarrow> SecurityEvent list \<times> ringAuditLog" where
  "Drain a = (map (\<lambda>i. ring a ! ((head a + i) mod cap a)) [0..<size a], a\<lparr>size := 0, head := 0\<rparr>)"

section \<open>Refinement to a bounded list\<close>

definition audit_inv :: "ringAuditLog \<Rightarrow> bool" where
  "audit_inv a \<longleftrightarrow>
     0 < cap a \<and> length (ring a) = cap a \<and> head a < cap a \<and> size a \<le> cap a \<and>
     length (lastHash a) = 32"

definition contents :: "ringAuditLog \<Rightarrow> SecurityEvent list" where
  "contents a = map (\<lambda>i. ring a ! ((head a + i) mod cap a)) [0..<size a]"

lemma length_contents [simp]: "length (contents a) = size a"
  by (simp add: contents_def)

text \<open>The abstract log: the retained events, oldest first, and the last hash.\<close>

record audit_spec =
  retained :: "SecurityEvent list"
  bound :: nat
  tip :: "byte list"

datatype audit_op = OpAppend time SecurityEvent | OpDrain

fun audit_step :: "ringAuditLog \<Rightarrow> audit_op \<Rightarrow> ringAuditLog" where
  "audit_step a (OpAppend now e) = Append now e a"
| "audit_step a OpDrain = snd (Drain a)"

definition link :: "byte list \<Rightarrow> SecurityEvent \<Rightarrow> SecurityEvent" where
  "link h e = e\<lparr>PrevHash := LastHashSlice, Hash := sha256 (h @ event_bytes e)\<rparr>"

fun audit_spec_step :: "audit_spec \<Rightarrow> audit_op \<Rightarrow> audit_spec" where
  "audit_spec_step s (OpAppend now e) =
     (let e' = link (tip s) (stamp now e)
      in s\<lparr>retained := last_n (bound s) (retained s @ [e']), tip := Hash e'\<rparr>)"
| "audit_spec_step s OpDrain = s\<lparr>retained := []\<rparr>"

definition audit_abs :: "ringAuditLog \<Rightarrow> audit_spec" where
  "audit_abs a = \<lparr>retained = contents a, bound = cap a, tip = lastHash a\<rparr>"

lemma event_bytes_link_fields [simp]:
  "event_bytes (e\<lparr>PrevHash := p\<rparr>) = event_bytes e" "event_bytes (e\<lparr>Hash := h\<rparr>) = event_bytes e"
  by (simp_all add: event_bytes_def)

lemma Append_link:
  "Append now e a =
     (let e' = link (lastHash a) (stamp now e);
          a' = a\<lparr>lastHash := Hash e', ring := (ring a)[(head a + size a) mod cap a := e']\<rparr>
      in if size a < cap a then a'\<lparr>size := size a + 1\<rparr> else a'\<lparr>head := (head a + 1) mod cap a\<rparr>)"
  by (simp add: Append_def link_def Let_def)

lemma audit_inv_New [simp]: "audit_inv (NewAuditLog c)"
  by (simp add: NewAuditLog_def audit_inv_def Let_def)

lemma audit_inv_step: "audit_inv a \<Longrightarrow> audit_inv (audit_step a oper)"
  by (cases oper) (auto simp: Append_link Drain_def audit_inv_def link_def Let_def)

lemma ring_index_inject:
  "h < c \<Longrightarrow> i < c \<Longrightarrow> j < c \<Longrightarrow> (h + i) mod c = (h + j) mod (c::nat) \<longleftrightarrow> i = j"
  by (auto simp: mod_if)

lemma contents_nth: "i < size a \<Longrightarrow> contents a ! i = ring a ! ((head a + i) mod cap a)"
  by (simp add: contents_def)

lemma contents_Append_room:
  assumes "audit_inv a" "size a < cap a"
  shows "contents (Append now e a) = contents a @ [link (lastHash a) (stamp now e)]"
  using assms
  by (intro nth_equalityI)
    (auto simp: contents_nth Append_link Let_def audit_inv_def nth_append nth_list_update
      ring_index_inject less_Suc_eq)

lemma contents_Append_full:
  assumes "audit_inv a" "size a = cap a"
  shows "contents (Append now e a) = tl (contents a) @ [link (lastHash a) (stamp now e)]"
proof (rule nth_equalityI)
  let ?a = "Append now e a"
  have sz: "size ?a = cap a" "cap ?a = cap a" "head ?a = (head a + 1) mod cap a"
    using assms by (auto simp: Append_link Let_def)
  have rg: "ring ?a = (ring a)[head a := link (lastHash a) (stamp now e)]"
    using assms by (auto simp: Append_link Let_def audit_inv_def)
  show "length (contents ?a) = length (tl (contents a) @ [link (lastHash a) (stamp now e)])"
    using assms sz by (auto simp: audit_inv_def)
  fix i assume "i < length (contents ?a)"
  then have i: "i < cap a"
    by (simp add: sz)
  have idx: "(Suc (head a) mod cap a + i) mod cap a = Suc (head a + i) mod cap a"
    using mod_add_left_eq [of "Suc (head a)" "cap a" i] by simp
  have "Suc (head a + i) mod cap a = head a \<longleftrightarrow> i + 1 = cap a"
  proof (cases "i + 1 = cap a")
    case True
    then have eq: "Suc (head a + i) = head a + cap a"
      by simp
    show ?thesis
      unfolding eq using True assms by (simp add: audit_inv_def)
  next
    case False
    then show ?thesis
      using ring_index_inject [of "head a" "cap a" "i + 1" 0] assms i by (auto simp: audit_inv_def)
  qed
  then show "contents ?a ! i = (tl (contents a) @ [link (lastHash a) (stamp now e)]) ! i"
    using assms i by (auto simp: contents_nth sz rg idx nth_append nth_tl audit_inv_def)
qed

lemma retained_Append:
  assumes "audit_inv a"
  shows "contents (Append now e a) =
    last_n (cap a) (contents a @ [link (lastHash a) (stamp now e)])"
  using assms contents_Append_room [OF assms] contents_Append_full [OF assms]
  by (cases "size a < cap a") (auto simp: last_n_append_one audit_inv_def)

lemma lastHash_Append: "lastHash (Append now e a) = Hash (link (lastHash a) (stamp now e))"
  "cap (Append now e a) = cap a"
  by (auto simp: Append_link Let_def)

lemma contents_Drain:
  "contents (snd (Drain a)) = []" "cap (snd (Drain a)) = cap a" "lastHash (snd (Drain a)) = lastHash a"
  by (simp_all add: Drain_def contents_def)

lemma audit_abs_step: "audit_inv a \<Longrightarrow> audit_abs (audit_step a oper) = audit_spec_step (audit_abs a) oper"
  by (cases oper) (auto simp: audit_abs_def retained_Append lastHash_Append Let_def contents_Drain)

interpretation audit: refines audit_step audit_inv audit_abs audit_spec_step
  by unfold_locales (auto intro: audit_inv_step audit_abs_step)

lemma Recent_contents:
  assumes "audit_inv a"
  shows "Recent n a = (if n < 0 then None else Some (last_n (nat n) (contents a)))"
proof (cases "n < 0")
  case True
  then show ?thesis
    by (simp add: Recent_def Let_def)
next
  case False
  define k where "k = min (nat n) (size a)"
  have "((h + d + c) mod c + i) mod c = (h + (d + i)) mod c" for h d c i :: nat
    by (metis add.assoc mod_add_left_eq mod_add_self2)
  from this [of "head a" "size a - k" "cap a"]
  have start: "((head a + size a - k + cap a) mod cap a + i) mod cap a =
      (head a + (size a - k + i)) mod cap a" for i
    by (simp add: k_def)
  have "(if n > int (size a) then int (size a) else n) = int k"
    using False by (auto simp: k_def min_def)
  then have "Recent n a = Some (map (\<lambda>i. ring a ! (((head a + size a - k + cap a) mod cap a + i) mod cap a)) [0..<k])"
    by (simp only: Recent_def Let_def) simp
  also have "map (\<lambda>i. ring a ! (((head a + size a - k + cap a) mod cap a + i) mod cap a)) [0..<k] =
      map (\<lambda>i. ring a ! ((head a + (size a - k + i)) mod cap a)) [0..<k]"
    using start by simp
  also have "\<dots> = last_n (nat n) (contents a)"
    by (rule nth_equalityI) (auto simp: last_n_def k_def contents_nth min_def)
  finally show ?thesis
    using False by simp
qed

lemma Drain_contents: "fst (Drain a) = contents a"
  by (simp add: Drain_def contents_def)

text \<open>
  C8. The ring buffer implements a bounded list. After any sequence of appends and drains on a
  log of the given capacity, the retained events and the tip of the hash chain are those of the
  list specification, \<open>Recent\<close> returns its last \<open>n\<close> events (all of them when it has fewer,
  and a panic for a negative \<open>n\<close>), and \<open>Drain\<close> returns all of them.
\<close>

theorem audit_ring_refines_list:
  fixes c ops n
  defines "a \<equiv> run audit_step (NewAuditLog c) ops"
  defines "s \<equiv> run audit_spec_step (audit_abs (NewAuditLog c)) ops"
  shows "contents a = retained s \<and> lastHash a = tip s \<and>
    Recent n a = (if n < 0 then None else Some (last_n (nat n) (retained s))) \<and>
    fst (Drain a) = retained s \<and> retained (audit_abs (NewAuditLog c)) = []"
proof -
  have "audit_inv a"
    unfolding a_def by (rule audit.run_inv) simp
  moreover have "audit_abs a = s"
    unfolding a_def s_def by (rule audit.run_abs) simp
  ultimately show ?thesis
    by (auto simp: Recent_contents Drain_contents audit_abs_def contents_def NewAuditLog_def Let_def)
qed

section \<open>The hash chain\<close>

text \<open>Each event's hash is the digest of its predecessor's hash and its own bytes.\<close>

fun chained :: "SecurityEvent list \<Rightarrow> bool" where
  "chained [] \<longleftrightarrow> True"
| "chained [e] \<longleftrightarrow> True"
| "chained (e # f # es) \<longleftrightarrow> Hash f = sha256 (Hash e @ event_bytes f) \<and> chained (f # es)"

lemma chained_snoc:
  "chained (es @ [e]) \<longleftrightarrow> chained es \<and> (es \<noteq> [] \<longrightarrow> Hash e = sha256 (Hash (last es) @ event_bytes e))"
  by (induction es rule: chained.induct) auto

lemma chained_tl: "chained es \<Longrightarrow> chained (tl es)"
  by (induction es rule: chained.induct) auto

lemma chained_drop: "chained es \<Longrightarrow> chained (drop n es)"
  by (induction n arbitrary: es) (auto simp: drop_Suc chained_tl)

definition spec_chained :: "audit_spec \<Rightarrow> bool" where
  "spec_chained s \<longleftrightarrow>
     0 < bound s \<and> chained (retained s) \<and> list_all (\<lambda>e. PrevHash e = LastHashSlice) (retained s) \<and>
     (if retained s = [] then True else Hash (last (retained s)) = tip s)"

lemma spec_chained_step: "spec_chained s \<Longrightarrow> spec_chained (audit_spec_step s oper)"
proof (cases oper)
  case (OpAppend now e)
  let ?e = "link (tip s) (stamp now e)"
  assume s: "spec_chained s"
  then have "chained (retained s @ [?e])"
    by (cases "retained s = []") (auto simp: chained_snoc spec_chained_def link_def)
  then have "chained (last_n (bound s) (retained s @ [?e]))"
    by (simp add: last_n_def chained_drop del: drop_append)
  moreover have "last_n (bound s) (retained s @ [?e]) = last_n (bound s - 1) (retained s) @ [?e]"
    using s by (simp add: last_n_def spec_chained_def)
  moreover have "list_all (\<lambda>e. PrevHash e = LastHashSlice) (last_n (bound s - 1) (retained s))"
    using s by (auto simp: last_n_def spec_chained_def list_all_iff dest: in_set_dropD)
  moreover have "PrevHash ?e = LastHashSlice"
    by (simp add: link_def)
  ultimately show ?thesis
    using s by (simp add: OpAppend spec_chained_def Let_def)
qed (simp add: spec_chained_def)

interpretation audit_spec: op_system audit_spec_step spec_chained
  by unfold_locales (rule spec_chained_step)

lemma spec_chained_New: "spec_chained (audit_abs (NewAuditLog c))"
  by (simp add: spec_chained_def audit_abs_def contents_def NewAuditLog_def Let_def)

lemma audit_abs_run:
  "audit_abs (run audit_step (NewAuditLog c) ops) =
     run audit_spec_step (audit_abs (NewAuditLog c)) ops"
  by (rule audit.run_abs) simp

lemma reachable_chained: "spec_chained (audit_abs (run audit_step (NewAuditLog c) ops))"
  unfolding audit_abs_run by (rule audit_spec.run_inv [OF spec_chained_New])

text \<open>
  The chain of the retained events. After any sequence of appends, evictions and drains the
  hash of each retained event is the SHA-256 digest of the previous event's hash and its own
  fields, and the last retained hash is the tip; the stored \<open>PrevHash\<close>, however, is a slice of
  the tip itself, so reading it from any retained event yields the hash of the newest event, not
  of the predecessor.
\<close>

theorem audit_chain:
  fixes c ops
  defines "a \<equiv> run audit_step (NewAuditLog c) ops"
  shows "chained (contents a) \<and>
    (if contents a = [] then True else Hash (last (contents a)) = lastHash a) \<and>
    map (\<lambda>e. read_slice a (PrevHash e)) (contents a) = replicate (length (contents a)) (lastHash a)"
proof -
  have "spec_chained (audit_abs a)"
    unfolding a_def by (rule reachable_chained)
  then show ?thesis
    by (auto simp: spec_chained_def audit_abs_def list_all_iff map_replicate_const [symmetric]
        simp del: length_contents split: if_splits)
qed

section \<open>Tamper evidence\<close>

text \<open>The byte strings hashed when events are appended, starting from the tip \<open>h\<close>.\<close>

fun hashed :: "byte list \<Rightarrow> byte list list \<Rightarrow> byte list list" where
  "hashed h [] = []"
| "hashed h (b # bs) = (h @ b) # hashed (sha256 (h @ b)) bs"

definition chain_tip :: "byte list \<Rightarrow> byte list list \<Rightarrow> byte list" where
  "chain_tip h bs = foldl (\<lambda>h b. sha256 (h @ b)) h bs"

lemma chain_tip_simps [simp]:
  "chain_tip h [] = h" "chain_tip h (bs @ [b]) = sha256 (chain_tip h bs @ b)"
  by (simp_all add: chain_tip_def)

lemma length_chain_tip: "length h = 32 \<Longrightarrow> length (chain_tip h bs) = 32"
  by (cases bs rule: rev_cases) simp_all

lemma hashed_snoc [simp]: "hashed h (bs @ [b]) = hashed h bs @ [chain_tip h bs @ b]"
  by (induction bs arbitrary: h) (auto simp: chain_tip_def)

lemma same_tip:
  assumes "length h = 32"
  shows "chain_tip h xs = chain_tip h ys \<Longrightarrow> xs = ys \<or>
    (\<exists>x \<in> set (hashed h xs). \<exists>y \<in> set (hashed h ys). x \<noteq> y \<and> sha256 x = sha256 y) \<or>
    (\<exists>x \<in> set (hashed h xs) \<union> set (hashed h ys). sha256 x = h)"
proof (induction xs arbitrary: ys rule: rev_induct)
  case Nil
  then show ?case
    by (cases ys rule: rev_cases) auto
next
  case (snoc b xs)
  show ?case
  proof (cases ys rule: rev_cases)
    case Nil
    then show ?thesis
      using snoc.prems by auto
  next
    case (snoc ys' b')
    have len: "length (chain_tip h xs) = length (chain_tip h ys')"
      using assms by (simp add: length_chain_tip)
    show ?thesis
    proof (cases "chain_tip h xs @ b = chain_tip h ys' @ b'")
      case True
      then show ?thesis
        using len snoc snoc.IH [of ys'] by auto
    next
      case False
      then show ?thesis
        using snoc snoc.prems by auto
    qed
  qed
qed

definition append_all :: "(time \<times> SecurityEvent) list \<Rightarrow> audit_op list" where
  "append_all xs = map (\<lambda>(now, e). OpAppend now e) xs"

definition stamped_bytes :: "(time \<times> SecurityEvent) list \<Rightarrow> byte list list" where
  "stamped_bytes xs = map (\<lambda>(now, e). event_bytes (stamp now e)) xs"

lemma lastHash_run_Append:
  "lastHash (run audit_step a (append_all xs)) = chain_tip (lastHash a) (stamped_bytes xs)"
  by (induction xs arbitrary: a)
    (auto simp: append_all_def stamped_bytes_def chain_tip_def lastHash_Append link_def)

abbreviation zeroHash :: "byte list" where "zeroHash \<equiv> replicate 32 0"

text \<open>What an event says: its time and its text fields, without the boundaries between them.\<close>

definition said :: "time \<times> SecurityEvent \<Rightarrow> 64 word \<times> string" where
  "said ne = (Timestamp (stamp (fst ne) (snd ne)), Level (snd ne) @ Module (snd ne) @ Message (snd ne) @ SubjectID (snd ne))"

lemma event_bytes_said:
  "event_bytes (stamp now e) = event_bytes (stamp now' e') \<longleftrightarrow> said (now, e) = said (now', e')"
proof -
  have "event_bytes (stamp n x) = be64 (fst (said (n, x))) @ bytes_of (snd (said (n, x)))" for n x
    by (simp add: event_bytes_def said_def stamp_def)
  then show ?thesis
    by (simp add: prod_eq_iff)
qed

lemma stamped_bytes_said: "stamped_bytes xs = stamped_bytes ys \<Longrightarrow> map said xs = map said ys"
proof (induction xs arbitrary: ys)
  case (Cons x xs)
  then obtain y ys' where ys: "ys = y # ys'"
    by (cases ys) (auto simp: stamped_bytes_def)
  with Cons.prems have "event_bytes (stamp (fst x) (snd x)) = event_bytes (stamp (fst y) (snd y))" "stamped_bytes xs = stamped_bytes ys'"
    by (simp_all add: stamped_bytes_def split_beta)
  with ys Cons.IH show ?case
    by (simp add: event_bytes_said)
qed (simp add: stamped_bytes_def)

text \<open>
  C9. Tamper evidence. If two histories, of any lengths and on logs of any capacities, end in
  the same last hash, then they have the same number of events, and at every position the same
  timestamp and the same text, level, module, message and subject read one after the other; or the
  hashed strings of the two histories contain a SHA-256 collision, or one of them is a preimage
  of the initial all-zero hash. The boundaries between the four text fields are not protected.
\<close>

theorem audit_tamper_evident:
  assumes "lastHash (run audit_step (NewAuditLog c) (append_all xs)) =
    lastHash (run audit_step (NewAuditLog c') (append_all ys))"
  shows "map said xs = map said ys \<or>
    (\<exists>x \<in> set (hashed zeroHash (stamped_bytes xs)). \<exists>y \<in> set (hashed zeroHash (stamped_bytes ys)).
       x \<noteq> y \<and> sha256 x = sha256 y) \<or>
    (\<exists>x \<in> set (hashed zeroHash (stamped_bytes xs)) \<union> set (hashed zeroHash (stamped_bytes ys)).
       sha256 x = zeroHash)"
proof -
  have "chain_tip zeroHash (stamped_bytes xs) = chain_tip zeroHash (stamped_bytes ys)"
    using assms by (simp add: lastHash_run_Append NewAuditLog_def Let_def)
  from same_tip [OF _ this] show ?thesis
    by (auto dest: stamped_bytes_said)
qed

definition login_event :: SecurityEvent where
  "login_event = \<lparr>Timestamp = 7, Level = ''INFO'', Module = ''auth'', Message = ''ok'',
     SubjectID = '''', PrevHash = OwnSlice [], Hash = []\<rparr>"

theorem audit_tamper_evident_witness:
  "let xs = [(0, login_event)]; ys = [(9, login_event\<lparr>Module := ''au'', Message := ''thok''\<rparr>)] in
   map said xs = map said ys \<or>
    (\<exists>x \<in> set (hashed zeroHash (stamped_bytes xs)). \<exists>y \<in> set (hashed zeroHash (stamped_bytes ys)).
       x \<noteq> y \<and> sha256 x = sha256 y) \<or>
    (\<exists>x \<in> set (hashed zeroHash (stamped_bytes xs)) \<union> set (hashed zeroHash (stamped_bytes ys)).
       sha256 x = zeroHash)"
  unfolding Let_def
proof (rule audit_tamper_evident [of 1 _ 5])
  show "lastHash (run audit_step (NewAuditLog 1) (append_all [(0, login_event)])) =
    lastHash (run audit_step (NewAuditLog 5)
      (append_all [(9, login_event\<lparr>Module := ''au'', Message := ''thok''\<rparr>)]))"
    by (simp add: lastHash_run_Append NewAuditLog_def Let_def stamped_bytes_def login_event_def
        stamp_def event_bytes_def bytes_of_def)
qed

text \<open>
  Field boundaries are not hashed. Moving bytes between the module and the message of an
  event, or between any adjacent text fields, leaves the last hash of the log unchanged.
\<close>

theorem audit_hash_ignores_field_boundaries:
  fixes e now a
  defines "tip_with \<equiv> \<lambda>l m g s. lastHash (Append now (e\<lparr>Level := l, Module := m, Message := g, SubjectID := s\<rparr>) a)"
  shows "tip_with l m g s = tip_with (l @ m @ g @ s) '''' '''' ''''"
  by (simp add: tip_with_def lastHash_Append link_def event_bytes_def stamp_def)

end
