(* ===== verification/Grim_Rate_Limiter.thy ===== *)
theory Grim_Rate_Limiter
  imports Grim_Prelude
begin

text \<open>
  \<open>engine/security/rate_limiter.go\<close>: per-subject exponential backoff. The map holds pointers
  that never leave the package, so an entry is its value. \<open>RecordFailure\<close> reads the clock
  twice (for the attempt and for the end of the lockout); both readings are arguments. The log
  lines are not modelled.
\<close>

section \<open>Operations\<close>

record rateLimitEntry =
  attempts :: int
  lockedUntil :: time
  lastAttempt :: time

record RateLimiter =
  entries :: "(string, rateLimitEntry) gomap"

definition NewRateLimiter :: RateLimiter where
  "NewRateLimiter = \<lparr>entries = []\<rparr>"

definition RateLimiter_Check :: "time \<Rightarrow> RateLimiter \<Rightarrow> string \<Rightarrow> bool \<times> time" where
  "RateLimiter_Check now r subject =
     (case gomap_get (entries r) subject of
        None \<Rightarrow> (True, zeroTime)
      | Some entry \<Rightarrow>
          if now < lockedUntil entry then (False, lockedUntil entry) else (True, zeroTime))"

definition lockout_for :: "int \<Rightarrow> int" where
  "lockout_for n =
     (if n \<ge> 21 then 24 * Hour
      else if n \<ge> 16 then Hour
      else if n \<ge> 11 then 10 * Minute
      else if n \<ge> 6 then 60 * Second
      else 0)"

definition zeroEntry :: rateLimitEntry where
  "zeroEntry = \<lparr>attempts = 0, lockedUntil = zeroTime, lastAttempt = zeroTime\<rparr>"

definition RateLimiter_RecordFailure ::
  "time \<Rightarrow> time \<Rightarrow> RateLimiter \<Rightarrow> string \<Rightarrow> RateLimiter \<times> int \<times> int" where
  "RateLimiter_RecordFailure now1 now2 r subject =
     (let entry = (case gomap_get (entries r) subject of None \<Rightarrow> zeroEntry | Some entry \<Rightarrow> entry);
          entry = entry\<lparr>attempts := attempts entry + 1, lastAttempt := now1\<rparr>;
          totalFailures = attempts entry;
          lockout = lockout_for (attempts entry);
          entry = (if lockout > 0 then entry\<lparr>lockedUntil := now2 + lockout\<rparr> else entry)
      in (r\<lparr>entries := gomap_set (entries r) subject entry\<rparr>, lockout, totalFailures))"

definition RateLimiter_RecordSuccess :: "RateLimiter \<Rightarrow> string \<Rightarrow> RateLimiter" where
  "RateLimiter_RecordSuccess r subject =
     (case gomap_get (entries r) subject of
        None \<Rightarrow> r
      | Some entry \<Rightarrow> r\<lparr>entries := gomap_delete (entries r) subject\<rparr>)"

definition RateLimiter_RemainingAttempts :: "time \<Rightarrow> RateLimiter \<Rightarrow> string \<Rightarrow> int" where
  "RateLimiter_RemainingAttempts now r subject =
     (case gomap_get (entries r) subject of
        None \<Rightarrow> 5
      | Some entry \<Rightarrow>
          if now < lockedUntil entry then -1
          else if attempts entry < 5 then 5 - attempts entry
          else if attempts entry < 10 then 10 - attempts entry
          else if attempts entry < 15 then 15 - attempts entry
          else if attempts entry < 20 then 20 - attempts entry
          else 0)"

definition LockoutStatus :: "time \<Rightarrow> RateLimiter \<Rightarrow> string \<Rightarrow> bool \<times> int" where
  "LockoutStatus now r subject =
     (case gomap_get (entries r) subject of
        None \<Rightarrow> (False, 0)
      | Some entry \<Rightarrow>
          if now < lockedUntil entry then (True, time_sub (lockedUntil entry) now) else (False, 0))"

section \<open>Sequences of calls\<close>

datatype rate_op = OpRateFailure time time string | OpRateSuccess string

fun rate_step :: "RateLimiter \<Rightarrow> rate_op \<Rightarrow> RateLimiter" where
  "rate_step r (OpRateFailure t1 t2 subject) = fst (RateLimiter_RecordFailure t1 t2 r subject)"
| "rate_step r (OpRateSuccess subject) = RateLimiter_RecordSuccess r subject"

text \<open>
  The abstract limiter keeps, for every subject, the failures since the last success (with
  their clock readings, latest first); there is no interference between subjects.
\<close>

fun rate_spec_step :: "(string \<Rightarrow> (time \<times> time) list) \<Rightarrow> rate_op \<Rightarrow> (string \<Rightarrow> (time \<times> time) list)" where
  "rate_spec_step f (OpRateFailure t1 t2 subject) = f(subject := (t1, t2) # f subject)"
| "rate_spec_step f (OpRateSuccess subject) = f(subject := [])"

fun entry_of :: "(time \<times> time) list \<Rightarrow> rateLimitEntry option" where
  "entry_of [] = None"
| "entry_of ((t1, t2) # ts) =
     Some \<lparr>attempts = int (length ts) + 1,
           lockedUntil = (if length ts + 1 < 6 then zeroTime else t2 + lockout_for (int (length ts) + 1)),
           lastAttempt = t1\<rparr>"

lemma lockout_for_pos: "0 < lockout_for n \<longleftrightarrow> 6 \<le> n"
  by (simp add: lockout_for_def duration_defs)

lemma rate_step_entry_of:
  assumes "map_of (entries r) = (\<lambda>s. entry_of (f s))"
  shows "map_of (entries (rate_step r oper)) = (\<lambda>s. entry_of (rate_spec_step f oper s))"
proof (cases oper)
  case (OpRateFailure t1 t2 s)
  then show ?thesis
    using assms
    by (cases "f s" rule: entry_of.cases)
      (auto simp: RateLimiter_RecordFailure_def Let_def zeroEntry_def lockout_for_pos fun_eq_iff)
next
  case (OpRateSuccess s)
  then show ?thesis
    using assms by (auto simp: RateLimiter_RecordSuccess_def fun_eq_iff split: option.split)
qed

text \<open>The failures of every subject since its last success, for a whole sequence of calls.\<close>

definition failures_since :: "rate_op list \<Rightarrow> string \<Rightarrow> (time \<times> time) list" where
  "failures_since ops = run rate_spec_step (\<lambda>s. []) ops"

lemma rate_run_entry_of:
  "map_of (entries (run rate_step NewRateLimiter ops)) s = entry_of (failures_since ops s)"
proof -
  have "map_of (entries (run rate_step r ops)) = (\<lambda>s. entry_of (run rate_spec_step f ops s))"
    if "map_of (entries r) = (\<lambda>s. entry_of (f s))" for r f
    using that by (induction ops arbitrary: r f) (auto dest: rate_step_entry_of)
  then show ?thesis
    by (simp add: failures_since_def NewRateLimiter_def fun_eq_iff)
qed

lemma entry_of_cases:
  "entry_of ts = (if ts = [] then None else
     Some \<lparr>attempts = int (length ts),
           lockedUntil = (if length ts < 6 then zeroTime else snd (hd ts) + lockout_for (int (length ts))),
           lastAttempt = fst (hd ts)\<rparr>)"
  by (cases ts rule: entry_of.cases) (auto simp: algebra_simps)

text \<open>The policy of the file header: the lockout after \<open>n\<close> consecutive failures, in nanoseconds.\<close>

definition documented_lockout :: "nat \<Rightarrow> int" where
  "documented_lockout n =
     (if n \<le> 5 then 0
      else if n \<le> 10 then 60
      else if n \<le> 15 then 600
      else if n \<le> 20 then 3600
      else 86400) * 1000000000"

lemma lockout_for_documented: "lockout_for (int n) = documented_lockout n"
  by (auto simp: lockout_for_def documented_lockout_def duration_defs)

text \<open>
  C25. The lockout policy. After any interleaving of failures and successes of any subjects, a
  subject with \<open>n\<close> failures since its last success is locked exactly until the tier of \<open>n\<close>
  (none below 6, 60 seconds from 6, 600 from 11, 3600 from 16, 86400 from 21, as in the header of
  the file) has elapsed since its latest failure; the next failure reports the tier of \<open>n + 1\<close> and the count
  \<open>n + 1\<close>. Other subjects have no influence.
\<close>

theorem rate_limiter_policy:
  fixes ops subject
  defines "r \<equiv> run rate_step NewRateLimiter ops"
  defines "fs \<equiv> failures_since ops subject"
  defines "until \<equiv> (if length fs < 6 then zeroTime else snd (hd fs) + documented_lockout (length fs))"
  shows "RateLimiter_Check now r subject =
      (if fs \<noteq> [] \<and> now < until then (False, until) else (True, zeroTime)) \<and>
    snd (RateLimiter_RecordFailure t1 t2 r subject) =
      (documented_lockout (length fs + 1), int (length fs) + 1)"
proof -
  have "map_of (entries r) subject = entry_of fs"
    by (simp add: r_def fs_def rate_run_entry_of)
  then show ?thesis
    by (auto simp: RateLimiter_Check_def RateLimiter_RecordFailure_def until_def entry_of_cases
        zeroEntry_def Let_def algebra_simps simp flip: lockout_for_documented)
qed

text \<open>
  The three status queries agree: \<open>Check\<close> refuses a subject exactly when \<open>LockoutStatus\<close>
  reports it locked, with the remaining time measured to the reported end of the lockout, and
  exactly when \<open>RemainingAttempts\<close> is minus one, in every reachable limiter.
\<close>

theorem rate_queries_agree:
  fixes ops subject now
  defines "r \<equiv> run rate_step NewRateLimiter ops"
  shows "LockoutStatus now r subject =
      (case RateLimiter_Check now r subject of
         (False, until) \<Rightarrow> (True, time_sub until now) | (True, _) \<Rightarrow> (False, 0)) \<and>
    (RateLimiter_RemainingAttempts now r subject = -1 \<longleftrightarrow> \<not> fst (RateLimiter_Check now r subject))"
proof -
  have "map_of (entries r) subject = entry_of (failures_since ops subject)"
    by (simp add: r_def rate_run_entry_of)
  then show ?thesis
    by (auto simp: LockoutStatus_def RateLimiter_Check_def RateLimiter_RemainingAttempts_def entry_of_cases
        split: option.splits)
qed

text \<open>
  \<open>RemainingAttempts\<close> at the tier boundaries. For an unlocked subject with \<open>n\<close> recorded
  failures, the reported number of further failures stays within the current tier exactly when
  \<open>n\<close> is none of 5, 10 and 15: at those counts the method reports five although the very next
  failure enters a longer lockout.
\<close>

theorem RemainingAttempts_boundaries:
  fixes entry subject
  assumes "0 \<le> attempts entry" "\<not> now < lockedUntil entry"
  defines "r \<equiv> \<lparr>entries = [(subject, entry)]\<rparr>"
  shows "lockout_for (attempts entry + RateLimiter_RemainingAttempts now r subject) =
      lockout_for (attempts entry) \<longleftrightarrow> attempts entry \<notin> {5, 10, 15}"
  using assms
  by (auto simp: r_def RateLimiter_RemainingAttempts_def lockout_for_def duration_defs)

theorem RemainingAttempts_boundaries_witness:
  "lockout_for (5 + RateLimiter_RemainingAttempts 0 \<lparr>entries = [(''u'', zeroEntry\<lparr>attempts := 5\<rparr>)]\<rparr> ''u'') \<noteq>
     lockout_for 5"
  using RemainingAttempts_boundaries [of "zeroEntry\<lparr>attempts := 5\<rparr>" 0 "''u''"]
  by (simp add: zeroEntry_def zeroTime_def)

end
