(* ===== verification/Grim_Memory.thy ===== *)
theory Grim_Memory
  imports Grim_Errors
begin

text \<open>
  \<open>engine/security/memguard.go\<close> and \<open>constant_time.go\<close>: the buffers that hold key material.
  Slices are shared by reference, so the components that store, return and wipe them work on an
  explicit heap: an address stands for the backing array of a slice.
\<close>

section \<open>The heap of byte buffers\<close>

type_synonym addr = nat

record heap =
  h_next :: addr
  h_mem :: "addr \<Rightarrow> byte list"

definition alloc :: "byte list \<Rightarrow> heap \<Rightarrow> addr \<times> heap" where
  "alloc bs h = (h_next h, h\<lparr>h_next := h_next h + 1, h_mem := (h_mem h)(h_next h := bs)\<rparr>)"

text \<open>\<open>make([]byte, n)\<close>\<close>

definition make_bytes :: "nat \<Rightarrow> heap \<Rightarrow> addr \<times> heap" where
  "make_bytes n h = alloc (replicate n 0) h"

text \<open>\<open>copy(dst, src)\<close> moves as many bytes as the shorter of the two slices has.\<close>

definition copy_bytes :: "byte list \<Rightarrow> byte list \<Rightarrow> byte list" where
  "copy_bytes dst src = take (length dst) src @ drop (length src) dst"

definition heap_copy :: "addr \<Rightarrow> addr \<Rightarrow> heap \<Rightarrow> heap" where
  "heap_copy dst src h = h\<lparr>h_mem := (h_mem h)(dst := copy_bytes (h_mem h dst) (h_mem h src))\<rparr>"

lemma length_copy_bytes [simp]: "length (copy_bytes dst src) = length dst"
  by (simp add: copy_bytes_def)

lemma copy_bytes_same [simp]: "length dst = length src \<Longrightarrow> copy_bytes dst src = src"
  by (simp add: copy_bytes_def)

lemma alloc_simps [simp]:
  "fst (alloc bs h) = h_next h"
  "h_next (snd (alloc bs h)) = h_next h + 1"
  "h_mem (snd (alloc bs h)) = (h_mem h)(h_next h := bs)"
  by (simp_all add: alloc_def)

lemma make_bytes_simps [simp]:
  "fst (make_bytes n h) = h_next h"
  "h_next (snd (make_bytes n h)) = h_next h + 1"
  "h_mem (snd (make_bytes n h)) = (h_mem h)(h_next h := replicate n 0)"
  by (simp_all add: make_bytes_def)

lemma heap_copy_simps [simp]:
  "h_next (heap_copy d s h) = h_next h"
  "h_mem (heap_copy d s h) = (h_mem h)(d := copy_bytes (h_mem h d) (h_mem h s))"
  by (simp_all add: heap_copy_def)

section \<open>Zeroisation and comparison\<close>

definition zeroize_bytes :: "byte list \<Rightarrow> byte list" where
  "zeroize_bytes b = foldl (\<lambda>b i. b[i := 0]) b [0..<length b]"

definition zeroize :: "addr \<Rightarrow> heap \<Rightarrow> heap" where
  "zeroize a h = h\<lparr>h_mem := (h_mem h)(a := zeroize_bytes (h_mem h a))\<rparr>"

definition constantTimeEqual :: "byte list \<Rightarrow> byte list \<Rightarrow> bool" where
  "constantTimeEqual a b =
     (if length a \<noteq> length b then False
      else foldl (\<lambda>v i. v OR (a ! i XOR b ! i)) 0 [0..<length a] = 0)"

lemma zeroize_prefix:
  "n \<le> length b \<Longrightarrow> foldl (\<lambda>b i. b[i := 0]) b [0..<n] = replicate n 0 @ drop n b"
proof (induction n)
  case (Suc n)
  then have "drop n b = b ! n # drop (Suc n) b"
    by (simp add: Cons_nth_drop_Suc)
  with Suc show ?case
    by (simp add: list_update_append replicate_append_same [symmetric])
qed simp

lemma zeroize_bytes_eq [simp]: "zeroize_bytes b = replicate (length b) 0"
  by (simp add: zeroize_bytes_def zeroize_prefix)

lemma zeroize_simps [simp]:
  "h_next (zeroize a h) = h_next h"
  "h_mem (zeroize a h) = (h_mem h)(a := replicate (length (h_mem h a)) 0)"
  by (simp_all add: zeroize_def)

lemma or_zero_iff: "(x :: byte) OR y = 0 \<longleftrightarrow> x = 0 \<and> y = 0"
  by (auto simp: bit_eq_iff bit_simps)

lemma xor_zero_iff: "(x :: byte) XOR y = 0 \<longleftrightarrow> x = y"
  by (auto simp: bit_eq_iff bit_simps)

lemma constant_time_prefix:
  "foldl (\<lambda>v i. v OR (a ! i XOR b ! i)) 0 [0..<n] = (0 :: byte) \<longleftrightarrow> (\<forall>i<n. a ! i = b ! i)"
  by (induction n) (auto simp: or_zero_iff xor_zero_iff less_Suc_eq)

lemma constantTimeEqual_eq: "constantTimeEqual a b \<longleftrightarrow> a = b"
  unfolding constantTimeEqual_def constant_time_prefix list_eq_iff_nth_eq [of a b] by simp

text \<open>
  The constant-time comparison decides equality, and zeroisation leaves a buffer of the
  same length whose every byte is zero.
\<close>

theorem constantTimeEqual_iff:
  "(constantTimeEqual a b \<longleftrightarrow> a = b) \<and> zeroize_bytes a = replicate (length a) 0"
  by (simp add: constantTimeEqual_eq)

section \<open>The memory guard\<close>

text \<open>
  \<open>MemoryGuard\<close> is an interface whose platform implementations are outside the engine; the
  engine ships \<open>goMemoryGuard\<close>. Errors of \<open>Lock\<close> and \<open>Unlock\<close> are returned, never raised.
\<close>

record MemoryGuard =
  g_Lock :: "addr \<Rightarrow> heap \<Rightarrow> go_error option \<times> heap"
  g_Unlock :: "addr \<Rightarrow> heap \<Rightarrow> go_error option \<times> heap"
  g_Zeroize :: "addr \<Rightarrow> heap \<Rightarrow> heap"
  g_CompareConstantTime :: "byte list \<Rightarrow> byte list \<Rightarrow> bool"
  g_AllocLocked :: "nat \<Rightarrow> heap \<Rightarrow> (go_error + addr) \<times> heap"

definition NewGoMemoryGuard :: MemoryGuard where
  "NewGoMemoryGuard =
     \<lparr>g_Lock = (\<lambda>b h. (None, h)),
      g_Unlock = (\<lambda>b h. (None, h)),
      g_Zeroize = zeroize,
      g_CompareConstantTime = constantTimeEqual,
      g_AllocLocked = (\<lambda>n h. let (a, h) = make_bytes n h in (Inr a, h))\<rparr>"

text \<open>
  The documented contract: \<open>AllocLocked\<close> returns a zeroed buffer of the requested size or fails
  without effect, \<open>Zeroize\<close> overwrites the buffer with zeros, and unlocking does not change it.
\<close>

locale memory_guard =
  fixes g :: MemoryGuard
  assumes alloc_locked:
      "g_AllocLocked g n h = (Inr (h_next h), snd (make_bytes n h)) \<or>
       (\<exists>e. g_AllocLocked g n h = (Inl e, h))"
    and zeroize_law: "g_Zeroize g a h = zeroize a h"
    and unlock_law: "snd (g_Unlock g a h) = h"
begin

lemma zeroize_then_unlock: "snd (g_Unlock g a (g_Zeroize g a h)) = zeroize a h"
  by (simp add: zeroize_law unlock_law)

end

interpretation go_guard: memory_guard NewGoMemoryGuard
  by unfold_locales (auto simp: NewGoMemoryGuard_def make_bytes_def alloc_def)

end
