(* ===== verification/Grim_Secrets.thy ===== *)
theory Grim_Secrets
  imports Grim_Memory
begin

text \<open>
  \<open>engine/security/mvk_store.go\<close> and \<open>secret_guard.go\<close>: the two stores of key material.
  Both map random tokens to heap buffers; the contract they share, including that no key
  material is left behind, is the locale \<open>secret_store\<close>. The sixteen random bytes of a call are
  an argument, or the error the random source reports.
\<close>

section \<open>Master vault keys\<close>

text \<open>The outcome of a \<open>Store\<close> call: the handle, an error, or the panic of \<open>randomHandle\<close>.\<close>

datatype store_result = StoreOk string | StoreErr go_error | StorePanic

fun randomHandle :: "go_error + byte list \<Rightarrow> string option" where
  "randomHandle (Inl err) = None"
| "randomHandle (Inr b) = Some (hex_encode b)"

record lockedMVKStore =
  guard :: MemoryGuard
  handles :: "(string, addr) gomap"

definition NewLockedMVKStore :: "MemoryGuard \<Rightarrow> lockedMVKStore" where
  "NewLockedMVKStore g = \<lparr>guard = g, handles = []\<rparr>"

definition MVK_Store ::
  "env \<Rightarrow> go_error + byte list \<Rightarrow> addr \<Rightarrow> lockedMVKStore \<times> heap \<Rightarrow> store_result \<times> lockedMVKStore \<times> heap" where
  "MVK_Store en rnd key sh =
     (let (s, h) = sh in
      case g_AllocLocked (guard s) (length (h_mem h key)) h of
        (Inl err, h) \<Rightarrow> (StoreErr (ErrGrim (NewSecurityMemlockError en (Some err))), s, h)
      | (Inr locked, h) \<Rightarrow>
          (let h = heap_copy locked key h in
           case randomHandle rnd of
             None \<Rightarrow> (StorePanic, s, h)
           | Some handle \<Rightarrow>
               (StoreOk handle, s\<lparr>handles := gomap_set (handles s) handle locked\<rparr>, h)))"

definition MVK_Retrieve :: "string \<Rightarrow> lockedMVKStore \<times> heap \<Rightarrow> addr option" where
  "MVK_Retrieve handle sh = gomap_get (handles (fst sh)) handle"

definition release :: "MemoryGuard \<Rightarrow> addr \<Rightarrow> heap \<Rightarrow> heap" where
  "release g key h = snd (g_Unlock g key (g_Zeroize g key h))"

definition MVK_Revoke :: "string \<Rightarrow> lockedMVKStore \<times> heap \<Rightarrow> lockedMVKStore \<times> heap" where
  "MVK_Revoke handle sh =
     (let (s, h) = sh in
      case gomap_get (handles s) handle of
        Some key \<Rightarrow> (s\<lparr>handles := gomap_delete (handles s) handle\<rparr>, release (guard s) key h)
      | None \<Rightarrow> (s, h))"

definition MVK_RevokeAll :: "lockedMVKStore \<times> heap \<Rightarrow> lockedMVKStore \<times> heap" where
  "MVK_RevokeAll sh =
     foldl (\<lambda>(s, h) (handle, key).
              (s\<lparr>handles := gomap_delete (handles s) handle\<rparr>, release (guard s) key h))
       sh (handles (fst sh))"

definition MVK_Handles :: "lockedMVKStore \<times> heap \<Rightarrow> string list" where
  "MVK_Handles sh = map fst (handles (fst sh))"

section \<open>Short-lived secrets\<close>

record SecretGuard =
  slots :: "(string, addr) gomap"

definition NewSecretGuard :: SecretGuard where
  "NewSecretGuard = \<lparr>slots = []\<rparr>"

definition SecretGuard_Store ::
  "go_error + byte list \<Rightarrow> addr \<Rightarrow> SecretGuard \<times> heap \<Rightarrow> store_result \<times> SecretGuard \<times> heap" where
  "SecretGuard_Store rnd secret gh =
     (let (g, h) = gh in
      case rnd of
        Inl err \<Rightarrow> (StoreErr err, g, h)
      | Inr raw \<Rightarrow>
          (let token = hex_encode raw;
               (buf, h) = make_bytes (length (h_mem h secret)) h;
               h = heap_copy buf secret h
           in (StoreOk token, g\<lparr>slots := gomap_set (slots g) token buf\<rparr>, h)))"

text \<open>The returned copy is a fresh slice that belongs to the caller: it is returned by value.\<close>

definition SecretGuard_Retrieve ::
  "string \<Rightarrow> SecretGuard \<times> heap \<Rightarrow> byte list option \<times> SecretGuard \<times> heap" where
  "SecretGuard_Retrieve token gh =
     (let (g, h) = gh in
      case gomap_get (slots g) token of
        None \<Rightarrow> (None, g, h)
      | Some buf \<Rightarrow>
          (let out = copy_bytes (replicate (length (h_mem h buf)) 0) (h_mem h buf)
           in (Some out, g\<lparr>slots := gomap_delete (slots g) token\<rparr>, zeroize buf h)))"

definition SecretGuard_Wipe :: "string \<Rightarrow> SecretGuard \<times> heap \<Rightarrow> SecretGuard \<times> heap" where
  "SecretGuard_Wipe token gh =
     (let (g, h) = gh in
      case gomap_get (slots g) token of
        Some buf \<Rightarrow> (g\<lparr>slots := gomap_delete (slots g) token\<rparr>, zeroize buf h)
      | None \<Rightarrow> (g, h))"

definition SecretGuard_WipeAll :: "SecretGuard \<times> heap \<Rightarrow> SecretGuard \<times> heap" where
  "SecretGuard_WipeAll gh =
     foldl (\<lambda>(g, h) (token, buf). (g\<lparr>slots := gomap_delete (slots g) token\<rparr>, zeroize buf h))
       gh (slots (fst gh))"

definition SecretGuard_Count :: "SecretGuard \<times> heap \<Rightarrow> int" where
  "SecretGuard_Count gh = int (length (slots (fst gh)))"

section \<open>Buffers owned by a map\<close>

definition zeroed :: "byte list \<Rightarrow> bool" where
  "zeroed bs \<longleftrightarrow> bs = replicate (length bs) 0"

definition live :: "(string, addr) gomap \<Rightarrow> addr set" where
  "live m = snd ` set m"

definition slots_view :: "(string, addr) gomap \<Rightarrow> heap \<Rightarrow> string \<rightharpoonup> byte list" where
  "slots_view m h t = map_option (h_mem h) (gomap_get m t)"

text \<open>
  The store owns the addresses from \<open>base\<close> on: they are pairwise distinct buffers of live
  tokens or hold only zeros.
\<close>

definition slots_inv :: "addr \<Rightarrow> (string, addr) gomap \<Rightarrow> heap \<Rightarrow> bool" where
  "slots_inv base m h \<longleftrightarrow>
     gomap m \<and> distinct (map snd m) \<and> base \<le> h_next h \<and>
     (\<forall>a \<in> live m. base \<le> a \<and> a < h_next h) \<and>
     (\<forall>a. base \<le> a \<and> a < h_next h \<and> a \<notin> live m \<longrightarrow> zeroed (h_mem h a))"

lemma zeroed_replicate [simp]: "zeroed (replicate n 0)"
  by (simp add: zeroed_def)

lemma live_iff: "gomap m \<Longrightarrow> a \<in> live m \<longleftrightarrow> (\<exists>t. map_of m t = Some a)"
  by (auto simp: live_def image_iff gomap_in_set [symmetric]) (metis snd_conv)

lemma live_map_of: "map_of m t = Some a \<Longrightarrow> a \<in> live m"
  by (force simp: live_def dest: map_of_SomeD)

lemma live_unique:
  "slots_inv base m h \<Longrightarrow> map_of m t = Some a \<Longrightarrow> map_of m t' = Some a \<Longrightarrow> t = t'"
  by (auto simp: slots_inv_def dest!: map_of_SomeD)
    (metis (mono_tags, lifting) distinct_map inj_onD prod.inject snd_conv)

lemma live_gomap_set: "t \<notin> dom (map_of m) \<Longrightarrow> live (gomap_set m t a) = insert a (live m)"
  by (simp add: dom_map_of_conv_image_fst gomap_set_fresh live_def)

lemma slots_put:
  assumes inv: "slots_inv base m h" and fresh: "map_of m t = None" and key: "key < base"
  defines "h' \<equiv> heap_copy (h_next h) key (snd (make_bytes (length (h_mem h key)) h))"
  shows "slots_inv base (gomap_set m t (h_next h)) h'"
    and "slots_view (gomap_set m t (h_next h)) h' = (slots_view m h)(t \<mapsto> h_mem h key)"
    and "\<forall>a < base. h_mem h' a = h_mem h a"
proof -
  have "key \<noteq> h_next h" "\<forall>a \<in> live m. a \<noteq> h_next h"
    using inv key by (auto simp: slots_inv_def)
  moreover have "t \<notin> fst ` set m"
    using fresh by (simp add: map_of_eq_None_iff)
  ultimately show "slots_inv base (gomap_set m t (h_next h)) h'"
    using inv fresh
    by (auto simp: slots_inv_def h'_def live_gomap_set gomap_set_fresh less_Suc_eq domIff live_def gomap_def)
  show "slots_view (gomap_set m t (h_next h)) h' = (slots_view m h)(t \<mapsto> h_mem h key)"
  proof (rule ext)
    fix t'
    show "slots_view (gomap_set m t (h_next h)) h' t' = ((slots_view m h)(t \<mapsto> h_mem h key)) t'"
      using \<open>key \<noteq> h_next h\<close> \<open>\<forall>a \<in> live m. a \<noteq> h_next h\<close> live_map_of [of m t']
      by (cases "map_of m t'") (auto simp: slots_view_def h'_def)
  qed
  show "\<forall>a < base. h_mem h' a = h_mem h a"
    using inv by (auto simp: h'_def slots_inv_def)
qed

lemma live_gomap_delete:
  assumes "slots_inv base m h" "map_of m t = Some a"
  shows "live (gomap_delete m t) = live m - {a}"
proof -
  have g: "gomap m" "gomap (gomap_delete m t)"
    using assms by (auto simp: slots_inv_def)
  show ?thesis
  proof (rule set_eqI)
    fix b
    have "(\<exists>t'. map_of (gomap_delete m t) t' = Some b) \<longleftrightarrow> (\<exists>t'. map_of m t' = Some b \<and> t' \<noteq> t)"
      by auto
    also have "\<dots> \<longleftrightarrow> (\<exists>t'. map_of m t' = Some b) \<and> b \<noteq> a"
      using live_unique [OF assms] assms(2) by (metis option.inject)
    finally show "b \<in> live (gomap_delete m t) \<longleftrightarrow> b \<in> live m - {a}"
      by (simp add: live_iff [OF g(1)] live_iff [OF g(2)])
  qed
qed

lemma slots_drop:
  assumes inv: "slots_inv base m h" and t: "map_of m t = Some a"
  shows "slots_inv base (gomap_delete m t) (zeroize a h)"
    and "slots_view (gomap_delete m t) (zeroize a h) = (slots_view m h)(t := None)"
    and "\<forall>b < base. h_mem (zeroize a h) b = h_mem h b"
proof -
  have a: "a \<in> live m"
    using t by (rule live_map_of)
  have "distinct (map snd (gomap_delete m t))"
    using inv by (auto simp: gomap_delete_filter slots_inv_def distinct_map intro: inj_on_subset)
  then show "slots_inv base (gomap_delete m t) (zeroize a h)"
    using inv a by (auto simp: slots_inv_def live_gomap_delete [OF inv t])
  show "slots_view (gomap_delete m t) (zeroize a h) = (slots_view m h)(t := None)"
  proof (rule ext)
    fix t'
    show "slots_view (gomap_delete m t) (zeroize a h) t' = ((slots_view m h)(t := None)) t'"
      using live_unique [OF inv t, of t'] by (cases "map_of m t'") (auto simp: slots_view_def)
  qed
  show "\<forall>b < base. h_mem (zeroize a h) b = h_mem h b"
    using inv a by (auto simp: slots_inv_def)
qed

definition drop_slot :: "string \<Rightarrow> (string, addr) gomap \<times> heap \<Rightarrow> (string, addr) gomap \<times> heap" where
  "drop_slot t mh =
     (case map_of (fst mh) t of None \<Rightarrow> mh | Some a \<Rightarrow> (gomap_delete (fst mh) t, zeroize a (snd mh)))"

text \<open>Wiping slots in iteration order, deleting from the map while ranging over it.\<close>

definition drop_list ::
  "(string, addr) gomap \<Rightarrow> (string, addr) gomap \<times> heap \<Rightarrow> (string, addr) gomap \<times> heap" where
  "drop_list ms mh = foldl (\<lambda>(m, h) (t, a). (gomap_delete m t, zeroize a h)) mh ms"

definition drop_slots :: "(string, addr) gomap \<times> heap \<Rightarrow> (string, addr) gomap \<times> heap" where
  "drop_slots mh = drop_list (fst mh) mh"

lemma drop_list_simps [simp]:
  "drop_list [] mh = mh"
  "drop_list ((t, a) # ms) (m, h) = drop_list ms (gomap_delete m t, zeroize a h)"
  by (simp_all add: drop_list_def)

lemma drop_list_correct:
  assumes "slots_inv base m h" "gomap ms" "set ms \<subseteq> set m"
  shows "slots_inv base (fst (drop_list ms (m, h))) (snd (drop_list ms (m, h))) \<and>
    map_of (fst (drop_list ms (m, h))) = (map_of m) |` (- fst ` set ms) \<and>
    (\<forall>b < base. h_mem (snd (drop_list ms (m, h))) b = h_mem h b)"
  using assms
proof (induction ms arbitrary: m h)
  case (Cons ta ms)
  obtain t a where ta: "ta = (t, a)"
    by (cases ta)
  have t: "map_of m t = Some a"
    using Cons.prems ta by (auto simp: slots_inv_def gomap_in_set)
  have sub: "set ms \<subseteq> set (gomap_delete m t)"
    using Cons.prems ta by (auto simp: gomap_delete_filter gomap_def image_iff)
  have "slots_inv base (gomap_delete m t) (zeroize a h)"
    using slots_drop(1) [OF Cons.prems(1) t] .
  moreover have "gomap ms"
    using Cons.prems by (simp add: gomap_def)
  ultimately show ?case
    using Cons.IH [OF _ _ sub] slots_drop(3) [OF Cons.prems(1) t] ta
    by (auto simp: restrict_map_def fun_eq_iff)
qed (simp add: restrict_map_def)

lemma drop_slots:
  assumes "slots_inv base m h"
  shows "slots_inv base (fst (drop_slots (m, h))) (snd (drop_slots (m, h)))"
    and "slots_view (fst (drop_slots (m, h))) (snd (drop_slots (m, h))) = (\<lambda>t. None)"
    and "\<forall>b < base. h_mem (snd (drop_slots (m, h))) b = h_mem h b"
  using drop_list_correct [OF assms _ subset_refl] assms
  by (auto simp: drop_slots_def slots_inv_def slots_view_def fun_eq_iff restrict_map_def
      map_of_eq_None_iff)

section \<open>The contract of a secret store\<close>

text \<open>
  Calls on a store: storing the buffer at an address under a random token, removing one token,
  removing all. The abstract store is a map from tokens to secrets.
\<close>

datatype secret_op = Put "byte list" addr | Remove string | RemoveAll

fun put_tokens :: "secret_op list \<Rightarrow> string list" where
  "put_tokens [] = []"
| "put_tokens (Put r k # ops) = hex_encode r # put_tokens ops"
| "put_tokens (_ # ops) = put_tokens ops"

fun put_keys :: "secret_op list \<Rightarrow> addr list" where
  "put_keys [] = []"
| "put_keys (Put r k # ops) = k # put_keys ops"
| "put_keys (_ # ops) = put_keys ops"

fun secret_spec :: "(addr \<Rightarrow> byte list) \<Rightarrow> (string \<rightharpoonup> byte list) \<Rightarrow> secret_op \<Rightarrow> (string \<rightharpoonup> byte list)" where
  "secret_spec bufs v (Put r k) = v(hex_encode r \<mapsto> bufs k)"
| "secret_spec bufs v (Remove t) = v(t := None)"
| "secret_spec bufs v RemoveAll = (\<lambda>t. None)"

lemma secret_spec_dom: "dom (secret_spec bufs v oper) \<subseteq> dom v \<union> set (put_tokens [oper])"
  by (cases oper) auto

locale secret_store =
  fixes do_op :: "'s \<Rightarrow> secret_op \<Rightarrow> 's"
    and slots_of :: "'s \<Rightarrow> (string, addr) gomap"
    and heap_of :: "'s \<Rightarrow> heap"
    and ok :: "'s \<Rightarrow> bool"
    and base :: addr
  assumes ok_step: "ok s \<Longrightarrow> ok (do_op s oper)"
    and put_law:
      "ok s \<Longrightarrow> slots_inv base (slots_of s) (heap_of s) \<Longrightarrow> map_of (slots_of s) (hex_encode r) = None \<Longrightarrow> k < base \<Longrightarrow>
       slots_of (do_op s (Put r k)) = gomap_set (slots_of s) (hex_encode r) (h_next (heap_of s)) \<and>
       heap_of (do_op s (Put r k)) =
         heap_copy (h_next (heap_of s)) k (snd (make_bytes (length (h_mem (heap_of s) k)) (heap_of s)))"
    and remove_law:
      "ok s \<Longrightarrow> (slots_of (do_op s (Remove t)), heap_of (do_op s (Remove t))) = drop_slot t (slots_of s, heap_of s)"
    and remove_all_law:
      "ok s \<Longrightarrow> (slots_of (do_op s RemoveAll), heap_of (do_op s RemoveAll)) = drop_slots (slots_of s, heap_of s)"
begin

definition view :: "'s \<Rightarrow> string \<rightharpoonup> byte list" where
  "view s = slots_view (slots_of s) (heap_of s)"

definition inv :: "'s \<Rightarrow> bool" where
  "inv s \<longleftrightarrow> ok s \<and> slots_inv base (slots_of s) (heap_of s)"

lemma do_op_correct:
  assumes "inv s" "\<forall>t \<in> set (put_tokens [oper]). view s t = None" "\<forall>k \<in> set (put_keys [oper]). k < base"
  shows "inv (do_op s oper) \<and> view (do_op s oper) = secret_spec (h_mem (heap_of s)) (view s) oper \<and>
    (\<forall>a < base. h_mem (heap_of (do_op s oper)) a = h_mem (heap_of s) a)"
proof (cases oper)
  case (Put r k)
  then show ?thesis
    using assms ok_step [of s oper] put_law [of s r k] slots_put [of base "slots_of s" "heap_of s" "hex_encode r" k]
    by (auto simp: inv_def view_def slots_view_def)
next
  case (Remove t)
  then show ?thesis
    using assms ok_step [of s oper] remove_law [of s t] slots_drop [of base "slots_of s" "heap_of s" t]
    by (cases "map_of (slots_of s) t")
      (auto simp: inv_def view_def drop_slot_def slots_view_def fun_eq_iff)
next
  case RemoveAll
  then show ?thesis
    using assms ok_step [of s oper] remove_all_law [of s] drop_slots [of base "slots_of s" "heap_of s"]
    by (auto simp: inv_def view_def prod_eq_iff)
qed

lemma run_correct:
  assumes "inv s" "distinct (put_tokens ops)" "\<forall>t \<in> set (put_tokens ops). view s t = None"
    and "\<forall>k \<in> set (put_keys ops). k < base" "\<forall>a < base. h_mem (heap_of s) a = bufs a"
  shows "inv (run do_op s ops) \<and> view (run do_op s ops) = run (secret_spec bufs) (view s) ops \<and>
    (\<forall>a < base. h_mem (heap_of (run do_op s ops)) a = bufs a)"
  using assms
proof (induction ops arbitrary: s)
  case (Cons oper ops)
  have split: "put_tokens (oper # ops) = put_tokens [oper] @ put_tokens ops"
    "put_keys (oper # ops) = put_keys [oper] @ put_keys ops"
    by (cases oper; simp)+
  have c: "inv (do_op s oper)" "view (do_op s oper) = secret_spec (h_mem (heap_of s)) (view s) oper"
    "\<forall>a < base. h_mem (heap_of (do_op s oper)) a = h_mem (heap_of s) a"
    using do_op_correct [of s oper] Cons.prems unfolding split by auto
  have "secret_spec (h_mem (heap_of s)) (view s) oper = secret_spec bufs (view s) oper"
    using Cons.prems unfolding split by (cases oper) auto
  moreover have "\<forall>t \<in> set (put_tokens ops). view (do_op s oper) t = None"
    using c(2) secret_spec_dom [of "h_mem (heap_of s)" "view s" oper] Cons.prems unfolding split by fastforce
  ultimately show ?case
    using Cons.IH [of "do_op s oper"] Cons.prems c unfolding split by simp
qed simp

end

section \<open>Both stores satisfy the contract\<close>

fun mvk_op :: "lockedMVKStore \<times> heap \<Rightarrow> secret_op \<Rightarrow> lockedMVKStore \<times> heap" where
  "mvk_op sh (Put r k) = snd (MVK_Store \<lparr>env_now = 0, env_stack = []\<rparr> (Inr r) k sh)"
| "mvk_op sh (Remove t) = MVK_Revoke t sh"
| "mvk_op sh RemoveAll = MVK_RevokeAll sh"

fun guard_op :: "SecretGuard \<times> heap \<Rightarrow> secret_op \<Rightarrow> SecretGuard \<times> heap" where
  "guard_op gh (Put r k) = snd (SecretGuard_Store (Inr r) k gh)"
| "guard_op gh (Remove t) = SecretGuard_Wipe t gh"
| "guard_op gh RemoveAll = SecretGuard_WipeAll gh"

lemma release_go [simp]: "release NewGoMemoryGuard a h = zeroize a h"
  by (simp add: release_def go_guard.zeroize_then_unlock)

lemma AllocLocked_go [simp]:
  "g_AllocLocked NewGoMemoryGuard n h = (Inr (h_next h), snd (make_bytes n h))"
  by (simp add: NewGoMemoryGuard_def make_bytes_def alloc_def)

definition go_guarded :: "lockedMVKStore \<times> heap \<Rightarrow> bool" where
  "go_guarded sh \<longleftrightarrow> guard (fst sh) = NewGoMemoryGuard"

lemma RevokeAll_go:
  "guard s = NewGoMemoryGuard \<Longrightarrow>
   foldl (\<lambda>(s, h) (handle, key). (s\<lparr>handles := gomap_delete (handles s) handle\<rparr>, release (guard s) key h))
     (s, h) ms = (s\<lparr>handles := fst (drop_list ms (handles s, h))\<rparr>, snd (drop_list ms (handles s, h)))"
  by (induction ms arbitrary: s h) auto

lemma WipeAll_drop:
  "foldl (\<lambda>(g, h) (token, buf). (g\<lparr>slots := gomap_delete (slots g) token\<rparr>, zeroize buf h)) (g, h) ms =
     (g\<lparr>slots := fst (drop_list ms (slots g, h))\<rparr>, snd (drop_list ms (slots g, h)))"
  by (induction ms arbitrary: g h) auto

interpretation mvk: secret_store mvk_op "\<lambda>sh. handles (fst sh)" snd go_guarded base for base
proof unfold_locales
  fix s :: "lockedMVKStore \<times> heap" and oper
  assume "go_guarded s"
  then show "go_guarded (mvk_op s oper)"
    by (cases s; cases oper)
      (auto simp: go_guarded_def MVK_Store_def MVK_Revoke_def MVK_RevokeAll_def RevokeAll_go Let_def
        split: option.split)
qed (auto simp: go_guarded_def MVK_Store_def MVK_Revoke_def MVK_RevokeAll_def RevokeAll_go Let_def
      drop_slot_def drop_slots_def split: option.split prod.split)

interpretation sguard: secret_store guard_op "\<lambda>gh. slots (fst gh)" snd "\<lambda>_. True" base for base
  by unfold_locales
    (auto simp: SecretGuard_Store_def SecretGuard_Wipe_def SecretGuard_WipeAll_def WipeAll_drop Let_def
      make_bytes_def alloc_def drop_slot_def drop_slots_def split: option.split prod.split)

lemma mvk_view_Retrieve:
  "mvk.view sh t = map_option (h_mem (snd sh)) (MVK_Retrieve t sh)"
  by (simp add: mvk.view_def slots_view_def MVK_Retrieve_def)

lemma mvk_start: "mvk.inv (h_next h) (NewLockedMVKStore NewGoMemoryGuard, h)"
  "mvk.view (NewLockedMVKStore NewGoMemoryGuard, h) = (\<lambda>t. None)"
  by (auto simp: mvk.inv_def mvk.view_def NewLockedMVKStore_def slots_inv_def slots_view_def live_def go_guarded_def)

lemma sguard_start: "sguard.inv (h_next h) (NewSecretGuard, h)"
  "sguard.view (NewSecretGuard, h) = (\<lambda>t. None)"
  by (auto simp: sguard.inv_def sguard.view_def NewSecretGuard_def slots_inv_def slots_view_def live_def)

text \<open>
  C7. The key store. For every sequence of \<open>Store\<close>, \<open>Revoke\<close> and \<open>RevokeAll\<close> calls with
  pairwise different random handles, storing buffers of the caller: \<open>Retrieve\<close> yields exactly
  the keys stored and not yet revoked; every buffer the store allocated that is not the buffer
  of a live handle holds only zeros (so a slice retrieved earlier reads zero after its handle is
  revoked); and no buffer of the caller has changed.
\<close>

theorem mvk_store_no_residue:
  fixes h ops
  assumes "distinct (put_tokens ops)" "\<forall>k \<in> set (put_keys ops). k < h_next h"
  defines "sh \<equiv> run mvk_op (NewLockedMVKStore NewGoMemoryGuard, h) ops"
  shows "(\<lambda>t. map_option (h_mem (snd sh)) (MVK_Retrieve t sh)) = run (secret_spec (h_mem h)) (\<lambda>t. None) ops \<and>
    (\<forall>a. h_next h \<le> a \<and> a < h_next (snd sh) \<and> a \<notin> live (handles (fst sh)) \<longrightarrow> zeroed (h_mem (snd sh) a)) \<and>
    (\<forall>a < h_next h. h_mem (snd sh) a = h_mem h a)"
proof -
  have "mvk.inv (h_next h) sh \<and> mvk.view sh = run (secret_spec (h_mem h)) (\<lambda>t. None) ops \<and>
      (\<forall>a < h_next h. h_mem (snd sh) a = h_mem h a)"
    using mvk.run_correct [OF mvk_start(1) assms(1), of h "h_mem h"] assms(2)
    by (simp add: mvk_start(2) sh_def)
  then show ?thesis
    by (auto simp: mvk.inv_def slots_inv_def mvk_view_Retrieve [abs_def])
qed

abbreviation key_heap :: heap where
  "key_heap \<equiv> \<lparr>h_next = 1, h_mem = (\<lambda>a. [7, 8, 9])\<rparr>"

theorem mvk_store_no_residue_witness:
  "map_option (h_mem (snd (run mvk_op (NewLockedMVKStore NewGoMemoryGuard, key_heap) [Put [1] 0, Put [2] 0, Remove ''01''])))
     (MVK_Retrieve ''02'' (run mvk_op (NewLockedMVKStore NewGoMemoryGuard, key_heap) [Put [1] 0, Put [2] 0, Remove ''01''])) =
   Some [7, 8, 9]"
proof -
  have hex: "hex_encode [1] = ''01''" "hex_encode [2] = ''02''"
    by code_simp+
  show ?thesis
    using mvk_store_no_residue [of "[Put [1] 0, Put [2] 0, Remove ''01'']" key_heap]
    by (simp add: hex fun_eq_iff del: mvk_op.simps)
qed

text \<open>
  C24. The secret guard. For every sequence of \<open>Store\<close>, \<open>Wipe\<close> and \<open>WipeAll\<close> calls with
  pairwise different random tokens: \<open>Retrieve\<close> returns exactly the secret stored under a live
  token, and leaves the guard as \<open>Wipe\<close> would, so a secret is handed out at most once; every
  buffer of a token no longer live holds only zeros.
\<close>

theorem secret_guard_one_shot:
  fixes h ops t
  assumes "distinct (put_tokens ops)" "\<forall>k \<in> set (put_keys ops). k < h_next h"
  defines "gh \<equiv> run guard_op (NewSecretGuard, h) ops"
  shows "fst (SecretGuard_Retrieve t gh) = run (secret_spec (h_mem h)) (\<lambda>t. None) ops t \<and>
    snd (SecretGuard_Retrieve t gh) = SecretGuard_Wipe t gh \<and>
    fst (SecretGuard_Retrieve t (snd (SecretGuard_Retrieve t gh))) = None \<and>
    (\<forall>a. h_next h \<le> a \<and> a < h_next (snd gh) \<and> a \<notin> live (slots (fst gh)) \<longrightarrow> zeroed (h_mem (snd gh) a))"
proof -
  have "sguard.inv (h_next h) gh \<and> sguard.view gh = run (secret_spec (h_mem h)) (\<lambda>t. None) ops"
    using sguard.run_correct [OF sguard_start(1) assms(1), of h "h_mem h"] assms(2)
    by (simp add: sguard_start(2) gh_def)
  moreover have "fst (SecretGuard_Retrieve t gh) = sguard.view gh t"
    by (auto simp: SecretGuard_Retrieve_def sguard.view_def slots_view_def split: prod.split option.split)
  ultimately show ?thesis
    by (auto simp: sguard.inv_def slots_inv_def SecretGuard_Retrieve_def SecretGuard_Wipe_def
        split: prod.splits option.splits)
qed

theorem secret_guard_one_shot_witness:
  "fst (SecretGuard_Retrieve ''01'' (run guard_op (NewSecretGuard, key_heap) [Put [1] 0])) = Some [7, 8, 9]"
proof -
  have hex: "hex_encode [1] = ''01''"
    by code_simp
  show ?thesis
    using secret_guard_one_shot [of "[Put [1] 0]" key_heap "''01''"]
    by (simp add: hex del: guard_op.simps)
qed

text \<open>
  Failures of \<open>Store\<close>. Under any guard that keeps the memory-guard contract, when the
  allocation fails the call returns the memory-lock error wrapping its cause and changes neither
  the handles nor any buffer; when it succeeds and the random source fails the call panics, and
  the copy of the key it has already made stays in a buffer that no handle names.
\<close>

theorem MVK_Store_failures:
  fixes m
  assumes "memory_guard g" "key < h_next h"
  defines "s \<equiv> \<lparr>guard = g, handles = m\<rparr>"
  shows "case g_AllocLocked g (length (h_mem h key)) h of
      (Inl e, _) \<Rightarrow>
        MVK_Store en rnd key (s, h) = (StoreErr (ErrGrim (NewSecurityMemlockError en (Some e))), s, h) \<and>
        errors_Is (ErrGrim (NewSecurityMemlockError en (Some e))) e
    | (Inr a, _) \<Rightarrow>
        (let (r, s', h') = MVK_Store en (Inl err) key (s, h)
         in r = StorePanic \<and> s' = s \<and> a = h_next h \<and> h_mem h' a = h_mem h key)"
proof -
  have "errors_Is (ErrGrim (NewSecurityMemlockError en (Some e))) e" for e
    by (simp add: NewSecurityMemlockError_def newError_def errors_Is_refl)
  with memory_guard.alloc_locked [OF assms(1), of "length (h_mem h key)" h] show ?thesis
    using assms(2) by (auto simp: s_def MVK_Store_def)
qed

theorem MVK_Store_failures_witness:
  "fst (MVK_Store \<lparr>env_now = 0, env_stack = []\<rparr> (Inl (ErrOther 1 ''no entropy'')) 0
     (NewLockedMVKStore NewGoMemoryGuard, key_heap)) = StorePanic"
  using MVK_Store_failures [OF go_guard.memory_guard_axioms, of 0 key_heap
      "\<lparr>env_now = 0, env_stack = []\<rparr>" _ "[]" "ErrOther 1 ''no entropy''"]
  by (simp add: NewLockedMVKStore_def case_prod_beta)

end
