(* ===== verification/Grim_Kernel_Event.thy ===== *)
theory Grim_Kernel_Event
  imports Grim_Prelude
begin

text \<open>
  \<open>engine/kernel/event.go\<close> and \<open>uuid.go\<close>: events, their types and routing prefix, and the
  identifiers of events. The sixteen random bytes of an identifier and the clock reading are
  arguments.
\<close>

section \<open>Event types\<close>

type_synonym EventType = string

definition EvAuthSetup :: EventType where "EvAuthSetup = ''AUTH.SETUP''"
definition EvAuthUnlock :: EventType where "EvAuthUnlock = ''AUTH.UNLOCK''"
definition EvAuthResult :: EventType where "EvAuthResult = ''AUTH.RESULT''"
definition EvAuthLockdown :: EventType where "EvAuthLockdown = ''AUTH.LOCKDOWN''"
definition EvAuthLogout :: EventType where "EvAuthLogout = ''AUTH.LOGOUT''"
definition EvAuthStatus :: EventType where "EvAuthStatus = ''AUTH.STATUS''"
definition EvAuthInitReady :: EventType where "EvAuthInitReady = ''AUTH.INIT_READY''"
definition EvAuthKeyReady :: EventType where "EvAuthKeyReady = ''AUTH.KEY_READY''"
definition EvAuthReady :: EventType where "EvAuthReady = ''AUTH.READY''"
definition EvAuthGetHandle :: EventType where "EvAuthGetHandle = ''AUTH.GET_HANDLE''"
definition EvCryptoEncrypt :: EventType where "EvCryptoEncrypt = ''CRYPTO.ENCRYPT''"
definition EvCryptoDecrypt :: EventType where "EvCryptoDecrypt = ''CRYPTO.DECRYPT''"
definition EvCryptoDerive :: EventType where "EvCryptoDerive = ''CRYPTO.DERIVE_KEY''"
definition EvCryptoShred :: EventType where "EvCryptoShred = ''CRYPTO.SHRED''"
definition EvCryptoResult :: EventType where "EvCryptoResult = ''CRYPTO.RESULT''"
definition EvStorageWrite :: EventType where "EvStorageWrite = ''STORAGE.WRITE''"
definition EvStorageRead :: EventType where "EvStorageRead = ''STORAGE.READ''"
definition EvStorageDelete :: EventType where "EvStorageDelete = ''STORAGE.DELETE''"
definition EvStorageList :: EventType where "EvStorageList = ''STORAGE.LIST''"
definition EvStorageResult :: EventType where "EvStorageResult = ''STORAGE.RESULT''"
definition EvStorageIngestProgress :: EventType where "EvStorageIngestProgress = ''STORAGE.INGEST_PROGRESS''"
definition EvStorageVFSMount :: EventType where "EvStorageVFSMount = ''STORAGE.VFS_MOUNT''"
definition EvStorageReady :: EventType where "EvStorageReady = ''STORAGE.READY''"
definition EvEntryCreate :: EventType where "EvEntryCreate = ''ENTRY.CREATE''"
definition EvEntryRead :: EventType where "EvEntryRead = ''ENTRY.READ''"
definition EvEntryUpdate :: EventType where "EvEntryUpdate = ''ENTRY.UPDATE''"
definition EvEntryDelete :: EventType where "EvEntryDelete = ''ENTRY.DELETE''"
definition EvEntryIngest :: EventType where "EvEntryIngest = ''ENTRY.INGEST''"
definition EvEntryResult :: EventType where "EvEntryResult = ''ENTRY.RESULT''"
definition EvEntryQuery :: EventType where "EvEntryQuery = ''ENTRY.QUERY''"
definition EvToolSSHGen :: EventType where "EvToolSSHGen = ''TOOL.SSH_GEN''"
definition EvToolResult :: EventType where "EvToolResult = ''TOOL.RESULT''"
definition EvSecMemLock :: EventType where "EvSecMemLock = ''SECURITY.MEM_LOCK''"
definition EvSecZeroize :: EventType where "EvSecZeroize = ''SECURITY.ZEROIZE''"
definition EvSecAudit :: EventType where "EvSecAudit = ''SECURITY.AUDIT''"
definition EvSecPanic :: EventType where "EvSecPanic = ''SECURITY.PANIC''"
definition EvSecLockdown :: EventType where "EvSecLockdown = ''SECURITY.LOCKDOWN''"
definition EvSyncBegin :: EventType where "EvSyncBegin = ''SYNC.BEGIN''"
definition EvSyncComplete :: EventType where "EvSyncComplete = ''SYNC.COMPLETE''"
definition EvSyncDiscover :: EventType where "EvSyncDiscover = ''SYNC.DISCOVER''"
definition EvSyncPair :: EventType where "EvSyncPair = ''SYNC.PAIR''"
definition EvSyncPull :: EventType where "EvSyncPull = ''SYNC.PULL''"
definition EvSyncPushVer :: EventType where "EvSyncPushVer = ''SYNC.PUSH_VERSION''"
definition EvSyncConflict :: EventType where "EvSyncConflict = ''SYNC.CONFLICT''"
definition EvBiometricAuthenticate :: EventType where "EvBiometricAuthenticate = ''BIOMETRIC.AUTHENTICATE''"
definition EvBiometricResult :: EventType where "EvBiometricResult = ''BIOMETRIC.RESULT''"
definition EvIntegrityCheck :: EventType where "EvIntegrityCheck = ''INTEGRITY.CHECK''"
definition EvIntegrityViolation :: EventType where "EvIntegrityViolation = ''INTEGRITY.VIOLATION''"
definition EvWorkspaceCreate :: EventType where "EvWorkspaceCreate = ''WORKSPACE.CREATE''"
definition EvWorkspaceSwitch :: EventType where "EvWorkspaceSwitch = ''WORKSPACE.SWITCH''"
definition EvWorkspaceDelete :: EventType where "EvWorkspaceDelete = ''WORKSPACE.DELETE''"
definition EvWorkspaceResult :: EventType where "EvWorkspaceResult = ''WORKSPACE.RESULT''"
definition EvKernelStatus :: EventType where "EvKernelStatus = ''KERNEL.STATUS''"
definition EvKernelStateReport :: EventType where "EvKernelStateReport = ''KERNEL.STATE_REPORT''"
definition EvKernelStateMirror :: EventType where "EvKernelStateMirror = ''KERNEL.STATE_MIRROR''"
definition EvReconnectResume :: EventType where "EvReconnectResume = ''RECONNECT.RESUME''"
definition EvReconnectSync :: EventType where "EvReconnectSync = ''RECONNECT.SYNC''"
definition EvGQLQuery :: EventType where "EvGQLQuery = ''GQL.QUERY''"
definition EvGQLResult :: EventType where "EvGQLResult = ''GQL.RESULT''"
definition EvSystemError :: EventType where "EvSystemError = ''SYSTEM.ERROR''"
definition EvSystemHealthCheck :: EventType where "EvSystemHealthCheck = ''SYSTEM.HEALTH_CHECK''"
definition EvSystemLog :: EventType where "EvSystemLog = ''SYSTEM.LOG''"

definition allEventTypes :: "EventType list" where
  "allEventTypes =
    [EvAuthSetup, EvAuthUnlock, EvAuthResult, EvAuthLockdown, EvAuthLogout, EvAuthStatus,
     EvAuthInitReady, EvAuthKeyReady, EvAuthReady, EvAuthGetHandle, EvCryptoEncrypt,
     EvCryptoDecrypt, EvCryptoDerive, EvCryptoShred, EvCryptoResult, EvStorageWrite,
     EvStorageRead, EvStorageDelete, EvStorageList, EvStorageResult,
     EvStorageIngestProgress, EvStorageVFSMount, EvStorageReady, EvEntryCreate, EvEntryRead,
     EvEntryUpdate, EvEntryDelete, EvEntryIngest, EvEntryResult, EvEntryQuery, EvToolSSHGen,
     EvToolResult, EvSecMemLock, EvSecZeroize, EvSecAudit, EvSecPanic, EvSecLockdown,
     EvSyncBegin, EvSyncComplete, EvSyncDiscover, EvSyncPair, EvSyncPull, EvSyncPushVer,
     EvSyncConflict, EvBiometricAuthenticate, EvBiometricResult, EvIntegrityCheck,
     EvIntegrityViolation, EvWorkspaceCreate, EvWorkspaceSwitch, EvWorkspaceDelete,
     EvWorkspaceResult, EvKernelStatus, EvKernelStateReport, EvKernelStateMirror,
     EvReconnectResume, EvReconnectSync, EvGQLQuery, EvGQLResult, EvSystemError,
     EvSystemHealthCheck, EvSystemLog]"

lemmas EventType_defs =
  EvAuthSetup_def EvAuthUnlock_def EvAuthResult_def EvAuthLockdown_def EvAuthLogout_def
  EvAuthStatus_def EvAuthInitReady_def EvAuthKeyReady_def EvAuthReady_def EvAuthGetHandle_def
  EvCryptoEncrypt_def EvCryptoDecrypt_def EvCryptoDerive_def EvCryptoShred_def
  EvCryptoResult_def EvStorageWrite_def EvStorageRead_def EvStorageDelete_def
  EvStorageList_def EvStorageResult_def EvStorageIngestProgress_def EvStorageVFSMount_def
  EvStorageReady_def EvEntryCreate_def EvEntryRead_def EvEntryUpdate_def EvEntryDelete_def
  EvEntryIngest_def EvEntryResult_def EvEntryQuery_def EvToolSSHGen_def EvToolResult_def
  EvSecMemLock_def EvSecZeroize_def EvSecAudit_def EvSecPanic_def EvSecLockdown_def
  EvSyncBegin_def EvSyncComplete_def EvSyncDiscover_def EvSyncPair_def EvSyncPull_def
  EvSyncPushVer_def EvSyncConflict_def EvBiometricAuthenticate_def EvBiometricResult_def
  EvIntegrityCheck_def EvIntegrityViolation_def EvWorkspaceCreate_def EvWorkspaceSwitch_def
  EvWorkspaceDelete_def EvWorkspaceResult_def EvKernelStatus_def EvKernelStateReport_def
  EvKernelStateMirror_def EvReconnectResume_def EvReconnectSync_def EvGQLQuery_def
  EvGQLResult_def EvSystemError_def EvSystemHealthCheck_def EvSystemLog_def

text \<open>\<open>Channel\<close> ranges over the runes of the type and cuts at the byte offset of the first dot.\<close>

definition Channel :: "EventType \<Rightarrow> string" where
  "Channel s =
     (case find (\<lambda>(i, c). c = of_char CHR ''.'') (runes s) of
        Some (i, c) \<Rightarrow> take i s
      | None \<Rightarrow> s)"

lemma takeWhile_of_char:
  "length (takeWhile (\<lambda>c. c \<noteq> of_char d) (map of_char s :: nat list)) = length (takeWhile (\<lambda>c. c \<noteq> d) s)"
  by (induction s) auto

lemma runes_find_char:
  assumes "of_char d < (0x80::nat)"
  shows "find (\<lambda>(i, c). c = of_char d) (runes s) =
    (if d \<in> set s then Some (length (takeWhile (\<lambda>c. c \<noteq> d) s), of_char d) else None)"
proof -
  have "(of_char d :: nat) \<in> set (map of_char s) \<longleftrightarrow> d \<in> set s"
    by auto
  then show ?thesis
    using runes_from_find_ascii [OF assms, of 0 "map of_char s"]
    by (simp only: runes_def takeWhile_of_char add_0)
qed

lemma takeWhile_absent: "d \<notin> set s \<Longrightarrow> takeWhile (\<lambda>c. c \<noteq> d) s = s"
  by (induction s) auto

lemma Channel_takeWhile: "Channel s = takeWhile (\<lambda>c. c \<noteq> CHR ''.'') s"
  using runes_find_char [of "CHR ''.''" s]
  by (cases "CHR ''.'' \<in> set s")
    (simp_all add: Channel_def takeWhile_eq_take [symmetric] takeWhile_absent)

record Event =
  ev_ID :: string
  ev_Type :: EventType
  ev_Payload :: "byte list"
  ev_ReplyTo :: string
  ev_Origin :: string
  ev_Timestamp :: int
  ev_TTL :: int

section \<open>Identifiers\<close>

definition newID :: "byte list \<Rightarrow> string" where
  "newID b =
     (let b = b[6 := (b ! 6 AND 0x0f) OR 0x40];
          b = b[8 := (b ! 8 AND 0x3f) OR 0x80]
      in hex_encode (take 4 b) @ ''-'' @ hex_encode (take 2 (drop 4 b)) @ ''-'' @
         hex_encode (take 2 (drop 6 b)) @ ''-'' @ hex_encode (take 2 (drop 8 b)) @ ''-'' @
         hex_encode (take 6 (drop 10 b)))"

definition defaultTTL :: int where "defaultTTL = 8"

definition NewEvent :: "time \<Rightarrow> byte list \<Rightarrow> string \<Rightarrow> EventType \<Rightarrow> byte list \<Rightarrow> Event" where
  "NewEvent now rnd origin t payload =
     \<lparr>ev_ID = newID rnd, ev_Type = t, ev_Payload = payload, ev_ReplyTo = '''', ev_Origin = origin,
      ev_Timestamp = wrap64 now, ev_TTL = defaultTTL\<rparr>"

definition ReplyEvent :: "time \<Rightarrow> byte list \<Rightarrow> string \<Rightarrow> EventType \<Rightarrow> Event \<Rightarrow> byte list \<Rightarrow> Event" where
  "ReplyEvent now rnd origin t req payload = (NewEvent now rnd origin t payload)\<lparr>ev_ReplyTo := ev_ID req\<rparr>"

section \<open>Routing prefix and identifiers\<close>

definition channelNames :: "string list" where
  "channelNames = [''AUTH'', ''CRYPTO'', ''STORAGE'', ''ENTRY'', ''TOOL'', ''SECURITY'', ''SYNC'',
     ''BIOMETRIC'', ''INTEGRITY'', ''WORKSPACE'', ''KERNEL'', ''RECONNECT'', ''GQL'', ''SYSTEM'']"

definition stamp_v4 :: "byte list \<Rightarrow> byte list" where
  "stamp_v4 b = b[6 := (b ! 6 AND 0x0f) OR 0x40, 8 := (b ! 8 AND 0x3f) OR 0x80]"

lemma version_nibble: "unat ((x AND 0x0f) OR 0x40 :: byte) div 16 = 4"
proof -
  have "drop_bit 4 ((x AND 0x0f) OR 0x40) = (4 :: byte)"
    by (simp only: drop_bit_and drop_bit_or) simp
  then have "unat (drop_bit 4 ((x AND 0x0f) OR 0x40 :: byte)) = 4"
    by (simp only:) simp
  then show ?thesis
    by (simp only: unat_drop_bit_eq) (simp add: drop_bit_eq_div)
qed

lemma byte_and_3: "(y :: byte) AND 3 \<in> {0, 1, 2, 3}"
proof -
  have "y AND 3 = take_bit 2 y"
    by (simp add: take_bit_eq_mask mask_eq_exp_minus_1)
  then have "unat (y AND 3) < 4"
    using take_bit_nat_less_exp [of 2 "unat y"] by (simp add: unsigned_take_bit_eq)
  then have "unat (y AND 3) \<in> {unat (0::byte), unat (1::byte), unat (2::byte), unat (3::byte)}"
    by auto
  then show ?thesis
    by (simp only: insert_iff empty_iff unat_word_ariths word_unat_eq_iff)
qed

lemma variant_nibble: "unat ((x AND 0x3f) OR 0x80 :: byte) div 16 \<in> {8, 9, 10, 11}"
proof -
  have "drop_bit 4 ((x AND 0x3f) OR 0x80) = (drop_bit 4 x AND 3) OR (8 :: byte)"
    by (simp only: drop_bit_and drop_bit_or) simp
  then have "unat (drop_bit 4 ((x AND 0x3f) OR 0x80 :: byte)) \<in> {8, 9, 10, 11}"
    using byte_and_3 [of "drop_bit 4 x"] by (simp only: insert_iff empty_iff) auto
  then show ?thesis
    by (simp only: unat_drop_bit_eq) (simp add: drop_bit_eq_div)
qed

text \<open>
  The routing prefix of a type is everything before its first dot, on any byte string (also
  one that is not valid UTF-8); every declared type lies on one of the fourteen channels, and no
  two declared constants are the same type.
\<close>

theorem Channel_prefix:
  "Channel s = takeWhile (\<lambda>c. c \<noteq> CHR ''.'') s \<and>
   list_all (\<lambda>t. Channel t \<in> set channelNames) allEventTypes \<and> distinct allEventTypes"
proof (intro conjI)
  show "Channel s = takeWhile (\<lambda>c. c \<noteq> CHR ''.'') s"
    by (rule Channel_takeWhile)
  show "list_all (\<lambda>t. Channel t \<in> set channelNames) allEventTypes"
    by (simp add: Channel_takeWhile allEventTypes_def EventType_defs channelNames_def)
  show "distinct allEventTypes"
    by (simp add: allEventTypes_def EventType_defs)
qed

lemma sixteen_bytes:
  assumes "length b = 16"
  obtains b0 b1 b2 b3 b4 b5 b6 b7 b8 b9 b10 b11 b12 b13 b14 b15
  where "b = [b0, b1, b2, b3, b4, b5, b6, b7, b8, b9, b10, b11, b12, b13, b14, b15]"
  using assms by (auto simp: numeral_eq_Suc length_Suc_conv)

lemma newID_stamp:
  "newID b =
     hex_encode (take 4 (stamp_v4 b)) @ ''-'' @ hex_encode (take 2 (drop 4 (stamp_v4 b))) @ ''-'' @
     hex_encode (take 2 (drop 6 (stamp_v4 b))) @ ''-'' @ hex_encode (take 2 (drop 8 (stamp_v4 b))) @ ''-'' @
     hex_encode (take 6 (drop 10 (stamp_v4 b)))"
  by (simp add: newID_def stamp_v4_def Let_def)

lemma hex_encode_append_inject:
  "length a = length c \<Longrightarrow> hex_encode a @ r = hex_encode c @ s \<longleftrightarrow> a = c \<and> r = s"
  by (subst append_eq_append_conv) auto

lemma uuid_groups_inject:
  assumes "length a = length a'" "length b = length b'" "length c = length c'" "length d = length d'"
    and "hex_encode a @ ''-'' @ hex_encode b @ ''-'' @ hex_encode c @ ''-'' @ hex_encode d @ ''-'' @ hex_encode e =
      hex_encode a' @ ''-'' @ hex_encode b' @ ''-'' @ hex_encode c' @ ''-'' @ hex_encode d' @ ''-'' @ hex_encode e'"
  shows "a @ b @ c @ d @ e = a' @ b' @ c' @ d' @ e'"
  using assms(5)
  by (simp add: hex_encode_append_inject [OF assms(1)] hex_encode_append_inject [OF assms(2)]
      hex_encode_append_inject [OF assms(3)] hex_encode_append_inject [OF assms(4)])

lemma sixteen_groups:
  assumes "length x = 16"
  shows "take 4 x @ take 2 (drop 4 x) @ take 2 (drop 6 x) @ take 2 (drop 8 x) @ take 6 (drop 10 x) = x"
  by (rule sixteen_bytes [OF assms]) simp

lemma newID_inject:
  assumes "length b = 16" "length b' = 16"
  shows "newID b = newID b' \<longleftrightarrow> stamp_v4 b = stamp_v4 b'"
proof
  assume eq: "newID b = newID b'"
  have len: "length (stamp_v4 b) = 16" "length (stamp_v4 b') = 16"
    using assms by (simp_all add: stamp_v4_def)
  have "take 4 (stamp_v4 b) @ take 2 (drop 4 (stamp_v4 b)) @ take 2 (drop 6 (stamp_v4 b)) @
      take 2 (drop 8 (stamp_v4 b)) @ take 6 (drop 10 (stamp_v4 b)) =
    take 4 (stamp_v4 b') @ take 2 (drop 4 (stamp_v4 b')) @ take 2 (drop 6 (stamp_v4 b')) @
      take 2 (drop 8 (stamp_v4 b')) @ take 6 (drop 10 (stamp_v4 b'))"
    by (rule uuid_groups_inject [OF _ _ _ _ eq [unfolded newID_stamp]]) (simp_all add: len)
  then show "stamp_v4 b = stamp_v4 b'"
    by (simp only: sixteen_groups [OF len(1)] sixteen_groups [OF len(2)])
qed (simp add: newID_stamp)

lemma digit_values:
  "digit 8 = CHR ''8''" "digit 9 = CHR ''9''" "digit 10 = CHR ''a''" "digit 11 = CHR ''b''"
  by code_simp+

lemma digit_variant: "n \<in> {8, 9, 10, 11} \<Longrightarrow> digit n \<in> {CHR ''8'', CHR ''9'', CHR ''a'', CHR ''b''}"
  using digit_values by (elim insertE) simp_all

text \<open>
  C40. Event identifiers are well-formed version-4 UUIDs: 36 characters with dashes at the
  standard places, version digit four and a variant digit among 8, 9, a and b; and two draws
  give the same identifier exactly when they agree on all but the six fixed bits.
\<close>

theorem newID_uuid_v4:
  assumes "length b = 16" "length b' = 16"
  shows "length (newID b) = 36 \<and>
    map ((!) (newID b)) [8, 13, 18, 23] = ''----'' \<and>
    newID b ! 14 = CHR ''4'' \<and> newID b ! 19 \<in> {CHR ''8'', CHR ''9'', CHR ''a'', CHR ''b''} \<and>
    (newID b = newID b' \<longleftrightarrow> stamp_v4 b = stamp_v4 b')"
proof -
  obtain b0 b1 b2 b3 b4 b5 b6 b7 b8 b9 b10 b11 b12 b13 b14 b15
    where b: "b = [b0, b1, b2, b3, b4, b5, b6, b7, b8, b9, b10, b11, b12, b13, b14, b15]"
    using sixteen_bytes [OF assms(1)] .
  have "newID b ! 14 = digit (unat ((b6 AND 0x0f) OR 0x40) div 16)"
    "newID b ! 19 = digit (unat ((b8 AND 0x3f) OR 0x80) div 16)"
    "length (newID b) = 36" "map ((!) (newID b)) [8, 13, 18, 23] = ''----''"
    by (simp_all add: b newID_def Let_def hex_encode_def hex_byte_def)
  moreover have "digit 4 = CHR ''4''"
    by code_simp
  ultimately show ?thesis
    using digit_variant [OF variant_nibble [of b8]] newID_inject [OF assms]
    by (simp only: version_nibble)
qed

theorem newID_uuid_v4_witness:
  "newID (replicate 16 0) ! 14 = CHR ''4'' \<and> newID (replicate 16 0) \<noteq> newID (replicate 16 1)"
proof -
  have "stamp_v4 (replicate 16 0) \<noteq> stamp_v4 (replicate 16 1)"
    by (simp add: stamp_v4_def numeral_eq_Suc)
  then show ?thesis
    using newID_uuid_v4 [of "replicate 16 0" "replicate 16 1"] by simp
qed

end
