(* ===== verification/Grim_Kernel_Handler.thy ===== *)
theory Grim_Kernel_Handler
  imports Grim_Kernel_Event Grim_Errors
begin

text \<open>
  \<open>engine/kernel/handler.go\<close>: handlers and the decorators a builder layers over them. A handler
  returns nil, an error or panics, and writes log lines; the elapsed times in the lines are not
  modelled.
\<close>

section \<open>Handlers\<close>

datatype handler_error = HandlerFailed go_error | handlerPanicError string string

fun handler_error_text :: "handler_error \<Rightarrow> string" where
  "handler_error_text (HandlerFailed e) = error_text e"
| "handler_error_text (handlerPanicError event v) = ''panic in handler for '' @ event @ '': recovered''"

datatype handler_result = Returned | Failed handler_error | Panicked string

datatype log_line =
    LogPanic string EventType string
  | LogError string EventType handler_error
  | LogOk string EventType
  | LogMetric string string bool

type_synonym Handler = "Event \<Rightarrow> handler_result \<times> log_line list"

section \<open>Decorators\<close>

definition recovery :: "string \<Rightarrow> Handler \<Rightarrow> Handler" where
  "recovery modulePrefix h e =
     (case h e of
        (Panicked v, ls) \<Rightarrow>
          (Failed (handlerPanicError (ev_Type e) v), ls @ [LogPanic modulePrefix (ev_Type e) v])
      | (Returned, ls) \<Rightarrow> (Returned, ls)
      | (Failed err, ls) \<Rightarrow> (Failed err, ls))"

definition logging :: "string \<Rightarrow> Handler \<Rightarrow> Handler" where
  "logging modulePrefix h e =
     (case h e of
        (Panicked v, ls) \<Rightarrow> (Panicked v, ls)
      | (Failed err, ls) \<Rightarrow> (Failed err, ls @ [LogError modulePrefix (ev_Type e) err])
      | (Returned, ls) \<Rightarrow> (Returned, ls @ [LogOk modulePrefix (ev_Type e)]))"

definition metrics :: "string \<Rightarrow> string \<Rightarrow> Handler \<Rightarrow> Handler" where
  "metrics modulePrefix eventLabel h e =
     (case h e of
        (Panicked v, ls) \<Rightarrow> (Panicked v, ls)
      | (Failed err, ls) \<Rightarrow> (Failed err, ls @ [LogMetric modulePrefix eventLabel False])
      | (Returned, ls) \<Rightarrow> (Returned, ls @ [LogMetric modulePrefix eventLabel True]))"

text \<open>
  A decorator is a function value; it is represented by the builder method that made it, and
  \<open>decorate\<close> is its application.
\<close>

datatype decorator = Recovery string | Logging string | Metrics string string

fun decorate :: "decorator \<Rightarrow> Handler \<Rightarrow> Handler" where
  "decorate (Recovery p) = recovery p"
| "decorate (Logging p) = logging p"
| "decorate (Metrics p l) = metrics p l"

record HandlerBuilder =
  hb_base :: Handler
  hb_decorators :: "decorator list"

definition NewHandlerBuilder :: "Handler \<Rightarrow> HandlerBuilder" where
  "NewHandlerBuilder h = \<lparr>hb_base = h, hb_decorators = []\<rparr>"

definition HandlerBuilder_WithRecovery :: "HandlerBuilder \<Rightarrow> string \<Rightarrow> HandlerBuilder" where
  "HandlerBuilder_WithRecovery b modulePrefix = b\<lparr>hb_decorators := hb_decorators b @ [Recovery modulePrefix]\<rparr>"

definition HandlerBuilder_WithLogging :: "HandlerBuilder \<Rightarrow> string \<Rightarrow> HandlerBuilder" where
  "HandlerBuilder_WithLogging b modulePrefix = b\<lparr>hb_decorators := hb_decorators b @ [Logging modulePrefix]\<rparr>"

definition HandlerBuilder_WithMetrics :: "HandlerBuilder \<Rightarrow> string \<Rightarrow> string \<Rightarrow> HandlerBuilder" where
  "HandlerBuilder_WithMetrics b modulePrefix eventLabel =
     b\<lparr>hb_decorators := hb_decorators b @ [Metrics modulePrefix eventLabel]\<rparr>"

text \<open>The loop runs from the last decorator to the first.\<close>

definition Build :: "HandlerBuilder \<Rightarrow> Handler" where
  "Build b = foldl (\<lambda>h d. decorate d h) (hb_base b) (rev (hb_decorators b))"

definition WithRecovery :: "string \<Rightarrow> Handler \<Rightarrow> Handler" where
  "WithRecovery modulePrefix h = Build (HandlerBuilder_WithRecovery (NewHandlerBuilder h) modulePrefix)"

definition WithLogging :: "string \<Rightarrow> Handler \<Rightarrow> Handler" where
  "WithLogging modulePrefix h = Build (HandlerBuilder_WithLogging (NewHandlerBuilder h) modulePrefix)"

section \<open>The composed handler\<close>

lemmas decorate_defs = recovery_def logging_def metrics_def

lemma Build_simps:
  "Build \<lparr>hb_base = h, hb_decorators = []\<rparr> = h"
  "Build \<lparr>hb_base = h, hb_decorators = d # ds\<rparr> = decorate d (Build \<lparr>hb_base = h, hb_decorators = ds\<rparr>)"
  by (simp_all add: Build_def)

fun is_recovery :: "decorator \<Rightarrow> bool" where
  "is_recovery (Recovery p) = True"
| "is_recovery _ = False"

lemma fst_decorate:
  "fst (decorate d h e) =
     (case fst (h e) of
        Panicked v \<Rightarrow> if is_recovery d then Failed (handlerPanicError (ev_Type e) v) else Panicked v
      | r \<Rightarrow> r)"
  by (cases d) (auto simp: decorate_defs split: handler_result.splits prod.splits)

lemma fst_Build:
  "fst (Build \<lparr>hb_base = h, hb_decorators = ds\<rparr> e) =
     (case fst (h e) of
        Panicked v \<Rightarrow> if list_ex is_recovery ds then Failed (handlerPanicError (ev_Type e) v) else Panicked v
      | r \<Rightarrow> r)"
  by (induction ds) (auto simp: Build_simps fst_decorate split: handler_result.splits)

text \<open>
  C39. Decorated handlers. The first decorator added is the outermost layer; whatever the
  decorators and their order, the composed handler returns what the base handler returns, except
  that a panic becomes the recovered-panic error exactly when a recovery layer is present; so a
  handler with a recovery layer never panics. A logging layer outside the recovery layer logs
  the recovered error, one inside it logs nothing for a panic.
\<close>

theorem decorated_handler:
  "Build \<lparr>hb_base = h, hb_decorators = d # ds\<rparr> = decorate d (Build \<lparr>hb_base = h, hb_decorators = ds\<rparr>) \<and>
   fst (Build \<lparr>hb_base = h, hb_decorators = ds\<rparr> e) =
     (case fst (h e) of
        Panicked v \<Rightarrow> if list_ex is_recovery ds then Failed (handlerPanicError (ev_Type e) v) else Panicked v
      | r \<Rightarrow> r) \<and>
   Build (HandlerBuilder_WithRecovery (HandlerBuilder_WithLogging (NewHandlerBuilder (\<lambda>e. (Panicked v, []))) p) p) e =
     (let err = handlerPanicError (ev_Type e) v
      in (Failed err, [LogPanic p (ev_Type e) v, LogError p (ev_Type e) err])) \<and>
   Build (HandlerBuilder_WithLogging (HandlerBuilder_WithRecovery (NewHandlerBuilder (\<lambda>e. (Panicked v, []))) p) p) e =
     (Failed (handlerPanicError (ev_Type e) v), [LogPanic p (ev_Type e) v])"
  by (simp add: Build_simps fst_Build NewHandlerBuilder_def HandlerBuilder_WithRecovery_def
      HandlerBuilder_WithLogging_def decorate_defs Let_def)

end
