(* ===== verification/Grim_Kernel_Bus.thy ===== *)
theory Grim_Kernel_Bus
  imports Grim_Kernel_Handler
begin

text \<open>
  \<open>engine/kernel/bus.go\<close>: the event bus. Each method is one atomic step of the bus here
  (\<open>Grim_Kernel_Concurrency\<close> takes the critical sections apart); a dispatched event does not run its handlers but spawns one
  goroutine per handler, and \<open>Dispatch\<close> returns the goroutines it spawns. A handler is an
  opaque value of type \<open>'h\<close>, since the bus never compares or calls it otherwise. The reply
  channel of a request is a one-slot buffer in a store of channels.
\<close>

section \<open>State\<close>

text \<open>\<open>strings.ToUpper\<close> on ASCII names, which is what channel names are.\<close>

definition toUpper_char :: "char \<Rightarrow> char" where
  "toUpper_char c =
     (let n = of_char c in if 97 \<le> n \<and> n \<le> (122::nat) then char_of (n - 32) else c)"

definition ToUpper :: "string \<Rightarrow> string" where
  "ToUpper s = map toUpper_char s"

record 'h Module =
  m_ID :: string
  m_Channels :: "string list"
  m_Handle :: 'h
  m_Stop :: handler_result

record 'h namedHandler =
  nh_id :: string
  nh_handler :: 'h

record 'h bus =
  modules :: "(string, 'h Module) gomap"
  channelHandlers :: "(string, 'h namedHandler list) gomap"
  typeHandlers :: "(EventType, 'h namedHandler list) gomap"
  pending :: "(string, nat) gomap"
  gatedChannels :: "(string, bool) gomap"
  gateOpen :: bool
  cancelled :: bool
  chan_buf :: "nat \<Rightarrow> Event option"
  next_chan :: nat

section \<open>Construction and gate\<close>

definition WithGatedChannels :: "string list \<Rightarrow> 'h bus \<Rightarrow> 'h bus" where
  "WithGatedChannels channels b =
     b\<lparr>gatedChannels := foldl (\<lambda>m ch. gomap_set m (ToUpper ch) True) [] channels\<rparr>"

definition NewBus :: "('h bus \<Rightarrow> 'h bus) list \<Rightarrow> 'h bus" where
  "NewBus opts =
     foldl (\<lambda>b opt. opt b)
       \<lparr>modules = [], channelHandlers = [], typeHandlers = [], pending = [], gatedChannels = [],
        gateOpen = False, cancelled = False, chan_buf = (\<lambda>_. None), next_chan = 0\<rparr> opts"

definition OpenGate :: "'h bus \<Rightarrow> 'h bus" where
  "OpenGate b = b\<lparr>gateOpen := True\<rparr>"

definition CloseGate :: "'h bus \<Rightarrow> 'h bus" where
  "CloseGate b = b\<lparr>gateOpen := False\<rparr>"

section \<open>Registration\<close>

definition handlersOf :: "'h bus \<Rightarrow> string \<Rightarrow> 'h namedHandler list" where
  "handlersOf b ch = gomap_index (channelHandlers b) [] ch"

definition subscribersOf :: "'h bus \<Rightarrow> EventType \<Rightarrow> 'h namedHandler list" where
  "subscribersOf b t = gomap_index (typeHandlers b) [] t"

definition addHandler :: "'h Module \<Rightarrow> 'h bus \<Rightarrow> string \<Rightarrow> 'h bus" where
  "addHandler m b ch =
     (let ch = ToUpper ch
      in b\<lparr>channelHandlers := gomap_set (channelHandlers b) ch
             (handlersOf b ch @ [\<lparr>nh_id = m_ID m, nh_handler = m_Handle m\<rparr>])\<rparr>)"

text \<open>The error of \<open>Register\<close> carries the duplicate identifier.\<close>

definition Register :: "'h Module \<Rightarrow> 'h bus \<Rightarrow> string option \<times> 'h bus" where
  "Register m b =
     (case gomap_get (modules b) (m_ID m) of
        Some _ \<Rightarrow> (Some (m_ID m), b)
      | None \<Rightarrow>
          (None, foldl (addHandler m) (b\<lparr>modules := gomap_set (modules b) (m_ID m) m\<rparr>) (m_Channels m)))"

definition removeHandlers :: "string \<Rightarrow> 'h bus \<Rightarrow> string \<Rightarrow> 'h bus" where
  "removeHandlers moduleID b ch =
     (let ch = ToUpper ch
      in b\<lparr>channelHandlers := gomap_set (channelHandlers b) ch
             (filter (\<lambda>h. nh_id h \<noteq> moduleID) (handlersOf b ch))\<rparr>)"

definition Unregister :: "string \<Rightarrow> 'h bus \<Rightarrow> 'h bus" where
  "Unregister moduleID b =
     (case gomap_get (modules b) moduleID of
        None \<Rightarrow> b
      | Some m \<Rightarrow>
          (let b = foldl (removeHandlers moduleID) b (m_Channels m)
           in b\<lparr>modules := gomap_delete (modules b) moduleID\<rparr>))"

text \<open>A nil handler makes \<open>Subscribe\<close> panic; the returned identifier names the unsubscribe function.\<close>

definition Subscribe :: "byte list \<Rightarrow> EventType \<Rightarrow> 'h option \<Rightarrow> 'h bus \<Rightarrow> (string \<times> 'h bus) option" where
  "Subscribe rnd eventType handler b =
     (case handler of
        None \<Rightarrow> None
      | Some h \<Rightarrow>
          (let id = newID rnd
           in Some (id, b\<lparr>typeHandlers := gomap_set (typeHandlers b) eventType
                            (subscribersOf b eventType @ [\<lparr>nh_id = id, nh_handler = h\<rparr>])\<rparr>)))"

definition unsubscribe :: "EventType \<Rightarrow> string \<Rightarrow> 'h bus \<Rightarrow> 'h bus" where
  "unsubscribe eventType hid b =
     b\<lparr>typeHandlers := gomap_set (typeHandlers b) eventType
         (filter (\<lambda>h. nh_id h \<noteq> hid) (subscribersOf b eventType))\<rparr>"

section \<open>Dispatch\<close>

text \<open>The event as it is delivered, or \<open>None\<close> when its hop count is exhausted.\<close>

definition prepare :: "time \<Rightarrow> Event \<Rightarrow> Event option" where
  "prepare now e =
     (if ev_TTL e < 0 then None
      else
        let e = (if ev_TTL e = 0 then e\<lparr>ev_TTL := defaultTTL\<rparr> else e);
            e = e\<lparr>ev_TTL := ev_TTL e - 1\<rparr>
        in Some (if ev_Timestamp e = 0 then e\<lparr>ev_Timestamp := wrap64 now\<rparr> else e))"

text \<open>A non-blocking send on the one-slot reply channel of a waiting request.\<close>

definition signal :: "Event \<Rightarrow> 'h bus \<Rightarrow> 'h bus" where
  "signal e b =
     (if ev_ReplyTo e \<noteq> '''' then
        (case gomap_get (pending b) (ev_ReplyTo e) of
           None \<Rightarrow> b
         | Some ch \<Rightarrow>
             (case chan_buf b ch of
                None \<Rightarrow> b\<lparr>chan_buf := (chan_buf b)(ch := Some e)\<rparr>
              | Some _ \<Rightarrow> b))
      else b)"

definition gated :: "'h bus \<Rightarrow> string \<Rightarrow> bool" where
  "gated b channel \<longleftrightarrow> gomap_index (gatedChannels b) False channel \<and> \<not> gateOpen b"

definition Dispatch :: "time \<Rightarrow> Event \<Rightarrow> 'h bus \<Rightarrow> 'h bus \<times> ('h \<times> Event) list" where
  "Dispatch now e b =
     (case prepare now e of
        None \<Rightarrow> (b, [])
      | Some e \<Rightarrow>
          (let b = signal e b;
               channel = Channel (ev_Type e)
           in if gated b channel then (b, [])
              else (b, map (\<lambda>h. (nh_handler h, e)) (handlersOf b channel @ subscribersOf b (ev_Type e)))))"

text \<open>The body of a spawned goroutine recovers a panic and logs an error: it always ends normally.\<close>

definition goroutine :: "Handler \<Rightarrow> Event \<Rightarrow> log_line list" where
  "goroutine h e =
     (case h e of
        (Panicked v, ls) \<Rightarrow> ls @ [LogPanic ''[bus]'' (ev_Type e) v]
      | (Failed err, ls) \<Rightarrow> ls @ [LogError ''[bus]'' (ev_Type e) err]
      | (Returned, ls) \<Rightarrow> ls)"

section \<open>Requests\<close>

text \<open>
  \<open>Request\<close> up to its \<open>select\<close>: the identifier, the reply channel, and the effects of the
  dispatch. The wait ends in one of three ways; whichever it is, the pending entry is deleted.
\<close>

definition with_ID :: "byte list \<Rightarrow> Event \<Rightarrow> Event" where
  "with_ID rnd e = (if ev_ID e = '''' then e\<lparr>ev_ID := newID rnd\<rparr> else e)"

definition Request_start ::
  "time \<Rightarrow> byte list \<Rightarrow> Event \<Rightarrow> 'h bus \<Rightarrow> (string \<times> nat) \<times> 'h bus \<times> ('h \<times> Event) list" where
  "Request_start now rnd e b =
     (let e = with_ID rnd e;
          ch = next_chan b;
          b = b\<lparr>next_chan := ch + 1, chan_buf := (chan_buf b)(ch := None),
                pending := gomap_set (pending b) (ev_ID e) ch\<rparr>
      in ((ev_ID e, ch), Dispatch now e b))"

datatype request_outcome = Reply Event | ContextDone | BusShutDown

definition Request_outcomes :: "bool \<Rightarrow> nat \<Rightarrow> 'h bus \<Rightarrow> request_outcome set" where
  "Request_outcomes ctxDone ch b =
     (case chan_buf b ch of Some r \<Rightarrow> {Reply r} | None \<Rightarrow> {}) \<union>
     (if ctxDone then {ContextDone} else {}) \<union> (if cancelled b then {BusShutDown} else {})"

definition Request_end :: "string \<Rightarrow> 'h bus \<Rightarrow> 'h bus" where
  "Request_end reqID b = b\<lparr>pending := gomap_delete (pending b) reqID\<rparr>"

section \<open>Shutdown\<close>

text \<open>
  Every module is stopped in its own goroutine; when they are all done or the context is, the
  bus context is cancelled. The result lists the stop calls with what they return; a call that
  panics is not recovered and ends the program.
\<close>

definition Shutdown :: "'h bus \<Rightarrow> 'h bus \<times> (string \<times> handler_result) list" where
  "Shutdown b = (b\<lparr>cancelled := True\<rparr>, map (\<lambda>(id, m). (m_ID m, m_Stop m)) (modules b))"

section \<open>Interleavings of calls\<close>

datatype 'h bus_op =
    OpRegister "'h Module"
  | OpUnregister string
  | OpSubscribe "byte list" EventType 'h
  | OpUnsubscribe EventType string
  | OpDispatch time Event
  | OpRequest time "byte list" Event
  | OpRequestEnd string
  | OpOpenGate
  | OpCloseGate
  | OpShutdown

fun bus_step :: "'h bus \<Rightarrow> 'h bus_op \<Rightarrow> 'h bus" where
  "bus_step b (OpRegister m) = snd (Register m b)"
| "bus_step b (OpUnregister mid) = Unregister mid b"
| "bus_step b (OpSubscribe rnd t h) = (case Subscribe rnd t (Some h) b of Some (_, b) \<Rightarrow> b | None \<Rightarrow> b)"
| "bus_step b (OpUnsubscribe t hid) = unsubscribe t hid b"
| "bus_step b (OpDispatch now e) = fst (Dispatch now e b)"
| "bus_step b (OpRequest now rnd e) = fst (snd (Request_start now rnd e b))"
| "bus_step b (OpRequestEnd rid) = Request_end rid b"
| "bus_step b OpOpenGate = OpenGate b"
| "bus_step b OpCloseGate = CloseGate b"
| "bus_step b OpShutdown = fst (Shutdown b)"

text \<open>The handlers a channel should have: one per channel entry of every registered module, in order.\<close>

definition expected :: "(string, 'h Module) gomap \<Rightarrow> string \<Rightarrow> 'h namedHandler list" where
  "expected ms ch =
     concat (map (\<lambda>(mid, m). map (\<lambda>_. \<lparr>nh_id = mid, nh_handler = m_Handle m\<rparr>)
       (filter (\<lambda>c. ToUpper c = ch) (m_Channels m))) ms)"

definition routing_inv :: "'h bus \<Rightarrow> bool" where
  "routing_inv b \<longleftrightarrow>
     gomap (modules b) \<and> (\<forall>(mid, m) \<in> set (modules b). m_ID m = mid) \<and>
     (\<forall>ch. handlersOf b ch = expected (modules b) ch)"

definition pending_inv :: "'h bus \<Rightarrow> bool" where
  "pending_inv b \<longleftrightarrow>
     (\<forall>rid ch. gomap_get (pending b) rid = Some ch \<longrightarrow> ch < next_chan b) \<and>
     (\<forall>rid rid' ch. gomap_get (pending b) rid = Some ch \<and> gomap_get (pending b) rid' = Some ch \<longrightarrow> rid = rid')"

definition bus_inv :: "'h bus \<Rightarrow> bool" where
  "bus_inv b \<longleftrightarrow> routing_inv b \<and> pending_inv b"

text \<open>What the operations leave alone.\<close>

lemma addHandlers_simps [simp]:
  "modules (foldl (addHandler m) b chs) = modules b"
  "pending (foldl (addHandler m) b chs) = pending b"
  "next_chan (foldl (addHandler m) b chs) = next_chan b"
  "chan_buf (foldl (addHandler m) b chs) = chan_buf b"
  "gatedChannels (foldl (addHandler m) b chs) = gatedChannels b"
  "gateOpen (foldl (addHandler m) b chs) = gateOpen b"
  by (induction chs arbitrary: b) (auto simp: addHandler_def Let_def)

lemma removeHandlers_simps [simp]:
  "modules (foldl (removeHandlers mid) b chs) = modules b"
  "pending (foldl (removeHandlers mid) b chs) = pending b"
  "next_chan (foldl (removeHandlers mid) b chs) = next_chan b"
  "chan_buf (foldl (removeHandlers mid) b chs) = chan_buf b"
  "gatedChannels (foldl (removeHandlers mid) b chs) = gatedChannels b"
  "gateOpen (foldl (removeHandlers mid) b chs) = gateOpen b"
  by (induction chs arbitrary: b) (auto simp: removeHandlers_def Let_def)

lemma signal_simps [simp]:
  "modules (signal e b) = modules b" "channelHandlers (signal e b) = channelHandlers b"
  "typeHandlers (signal e b) = typeHandlers b" "pending (signal e b) = pending b"
  "next_chan (signal e b) = next_chan b" "gatedChannels (signal e b) = gatedChannels b"
  "gateOpen (signal e b) = gateOpen b"
  by (auto simp: signal_def split: option.split)

lemma Dispatch_state: "fst (Dispatch now e b) = (case prepare now e of None \<Rightarrow> b | Some e \<Rightarrow> signal e b)"
  by (auto simp: Dispatch_def Let_def split: option.split)

lemma Dispatch_simps [simp]:
  "modules (fst (Dispatch now e b)) = modules b"
  "channelHandlers (fst (Dispatch now e b)) = channelHandlers b"
  "pending (fst (Dispatch now e b)) = pending b"
  "next_chan (fst (Dispatch now e b)) = next_chan b"
  by (auto simp: Dispatch_state split: option.split)

lemma Request_start_simps [simp]:
  "modules (fst (snd (Request_start now rnd e b))) = modules b"
  "channelHandlers (fst (snd (Request_start now rnd e b))) = channelHandlers b"
  "pending (fst (snd (Request_start now rnd e b))) = gomap_set (pending b) (ev_ID (with_ID rnd e)) (next_chan b)"
  "next_chan (fst (snd (Request_start now rnd e b))) = next_chan b + 1"
  by (simp_all add: Request_start_def Let_def)

section \<open>Routing\<close>

lemma handlersOf_addHandler:
  "handlersOf (foldl (addHandler m) b chs) ch =
     handlersOf b ch @ map (\<lambda>_. \<lparr>nh_id = m_ID m, nh_handler = m_Handle m\<rparr>) (filter (\<lambda>c. ToUpper c = ch) chs)"
  by (induction chs arbitrary: b)
    (auto simp: addHandler_def Let_def handlersOf_def gomap_index_def)

lemma handlersOf_removeHandlers:
  "handlersOf (foldl (removeHandlers mid) b chs) ch =
     (if ch \<in> ToUpper ` set chs then filter (\<lambda>h. nh_id h \<noteq> mid) (handlersOf b ch) else handlersOf b ch)"
  by (induction chs arbitrary: b)
    (auto simp: removeHandlers_def Let_def handlersOf_def gomap_index_def)

lemma expected_append: "expected (ms @ [(mid, m)]) ch =
    expected ms ch @ map (\<lambda>_. \<lparr>nh_id = mid, nh_handler = m_Handle m\<rparr>) (filter (\<lambda>c. ToUpper c = ch) (m_Channels m))"
  by (simp add: expected_def)

lemma expected_remove:
  "expected (filter (\<lambda>kv. fst kv \<noteq> mid) ms) ch = filter (\<lambda>h. nh_id h \<noteq> mid) (expected ms ch)"
  by (induction ms) (auto simp: expected_def filter_map comp_def)

lemma expected_other:
  assumes "gomap ms" "map_of ms mid = Some m" "ch \<notin> ToUpper ` set (m_Channels m)"
  shows "filter (\<lambda>h. nh_id h \<noteq> mid) (expected ms ch) = expected ms ch"
proof (rule filter_True, rule ballI)
  fix h assume "h \<in> set (expected ms ch)"
  then obtain mid' m' where "(mid', m') \<in> set ms" "nh_id h = mid'" "ch \<in> ToUpper ` set (m_Channels m')"
    by (auto simp: expected_def)
  then show "nh_id h \<noteq> mid"
    using assms by (auto simp: gomap_in_set)
qed

lemma routing_inv_Register: "routing_inv b \<Longrightarrow> routing_inv (snd (Register m b))"
proof -
  assume inv: "routing_inv b"
  show ?thesis
  proof (cases "gomap_get (modules b) (m_ID m)")
    case None
    then have "m_ID m \<notin> fst ` set (modules b)"
      by (simp add: map_of_eq_None_iff)
    with None inv show ?thesis
      by (auto simp: routing_inv_def Register_def handlersOf_addHandler gomap_set_fresh expected_append)
        (auto simp: handlersOf_def gomap_def)
  qed (use inv in \<open>simp add: Register_def\<close>)
qed

lemma routing_inv_Unregister: "routing_inv b \<Longrightarrow> routing_inv (Unregister mid b)"
proof -
  assume inv: "routing_inv b"
  show ?thesis
  proof (cases "gomap_get (modules b) mid")
    case (Some m)
    have "gomap (gomap_delete (modules b) mid)"
      using inv by (simp add: routing_inv_def)
    moreover have "handlersOf (Unregister mid b) ch = expected (gomap_delete (modules b) mid) ch" for ch
    proof -
      have "handlersOf (Unregister mid b) ch = handlersOf (foldl (removeHandlers mid) b (m_Channels m)) ch"
        by (simp add: Unregister_def Some handlersOf_def)
      also have "\<dots> = filter (\<lambda>h. nh_id h \<noteq> mid) (expected (modules b) ch)"
        using inv expected_other [OF _ Some, of ch]
        by (auto simp: handlersOf_removeHandlers routing_inv_def)
      finally show ?thesis
        by (simp add: expected_remove gomap_delete_filter)
    qed
    ultimately show ?thesis
      using inv by (auto simp: routing_inv_def Unregister_def Some gomap_delete_filter)
  qed (use inv in \<open>simp add: Unregister_def\<close>)
qed

lemma routing_inv_same:
  "modules b' = modules b \<Longrightarrow> channelHandlers b' = channelHandlers b \<Longrightarrow> routing_inv b' \<longleftrightarrow> routing_inv b"
  by (simp add: routing_inv_def handlersOf_def)

lemma pending_inv_same:
  "pending b' = pending b \<Longrightarrow> next_chan b' = next_chan b \<Longrightarrow> pending_inv b' \<longleftrightarrow> pending_inv b"
  by (simp add: pending_inv_def)

lemma routing_inv_step: "routing_inv b \<Longrightarrow> routing_inv (bus_step b oper)"
proof (cases oper)
  case (OpRegister m)
  then show "routing_inv b \<Longrightarrow> ?thesis"
    by (simp add: routing_inv_Register)
next
  case (OpUnregister mid)
  then show "routing_inv b \<Longrightarrow> ?thesis"
    by (simp add: routing_inv_Unregister)
qed (auto simp: Subscribe_def unsubscribe_def Let_def OpenGate_def CloseGate_def Shutdown_def Request_end_def
    cong: routing_inv_same)

lemma pending_inv_step: "pending_inv b \<Longrightarrow> pending_inv (bus_step b oper)"
  by (cases oper)
    (auto simp: pending_inv_def Register_def Unregister_def Subscribe_def unsubscribe_def Let_def
      OpenGate_def CloseGate_def Shutdown_def Request_end_def less_Suc_eq split: option.splits if_splits)

lemma bus_inv_step: "bus_inv b \<Longrightarrow> bus_inv (bus_step b oper)"
  by (simp add: bus_inv_def routing_inv_step pending_inv_step)

interpretation bus: op_system bus_step bus_inv
  by unfold_locales (rule bus_inv_step)

lemma bus_inv_WithGatedChannels: "bus_inv (WithGatedChannels cs b) \<longleftrightarrow> bus_inv b"
  by (simp add: WithGatedChannels_def bus_inv_def routing_inv_def pending_inv_def handlersOf_def)

lemma bus_inv_New: "bus_inv (NewBus (map WithGatedChannels css) :: 'h bus)"
proof (induction css rule: rev_induct)
  case (snoc cs css)
  then show ?case
    by (simp add: NewBus_def bus_inv_WithGatedChannels)
qed (simp add: bus_inv_def routing_inv_def pending_inv_def NewBus_def handlersOf_def expected_def gomap_index_def)

lemma routing_reachable: "routing_inv (run bus_step (NewBus (map WithGatedChannels css)) ops)"
  using bus.run_inv [OF bus_inv_New] by (auto simp: bus_inv_def)

lemma Dispatch_expected:
  assumes "routing_inv b"
  shows "snd (Dispatch now e b) =
    (case prepare now e of
       None \<Rightarrow> []
     | Some e' \<Rightarrow>
         if gated b (Channel (ev_Type e)) then []
         else map (\<lambda>h. (nh_handler h, e')) (expected (modules b) (Channel (ev_Type e)) @ subscribersOf b (ev_Type e)))"
proof -
  have "handlersOf (signal e' b) ch = expected (modules b) ch" for e' ch
    using assms by (simp add: routing_inv_def handlersOf_def)
  moreover have "ev_Type e' = ev_Type e" if "prepare now e = Some e'" for e'
    using that by (auto simp: prepare_def Let_def split: if_splits)
  moreover have "subscribersOf (signal e' b) t = subscribersOf b t" "gated (signal e' b) ch \<longleftrightarrow> gated b ch" for e' t ch
    by (simp_all add: subscribersOf_def gated_def)
  ultimately show ?thesis
    by (auto simp: Dispatch_def Let_def split: option.split)
qed


section \<open>Hop counts\<close>

text \<open>An event that a handler dispatches again as it received it, \<open>n\<close> times.\<close>

fun hops :: "time \<Rightarrow> nat \<Rightarrow> Event \<Rightarrow> Event option" where
  "hops now 0 e = Some e"
| "hops now (Suc n) e = (case hops now n e of None \<Rightarrow> None | Some e \<Rightarrow> prepare now e)"

lemma prepare_TTL:
  "0 \<le> ev_TTL e \<Longrightarrow> ev_TTL e \<le> 8 \<Longrightarrow>
   \<exists>e'. prepare now e = Some e' \<and> ev_TTL e' = (ev_TTL e - 1) mod 8"
proof -
  assume "0 \<le> ev_TTL e" "ev_TTL e \<le> 8"
  then have "(ev_TTL e - 1) mod 8 = (if ev_TTL e = 0 then 7 else ev_TTL e - 1)"
    by auto
  then show ?thesis
    using \<open>0 \<le> ev_TTL e\<close> by (auto simp: prepare_def defaultTTL_def Let_def)
qed

text \<open>
  The hop count never stops a cycle. An event created with the default hop count and
  dispatched again each time it is delivered is delivered after any number of hops: its count
  runs modulo eight, because a count of zero is reset to the default rather than dropped. Only
  an event that enters with a negative count is dropped.
\<close>

theorem TTL_never_exhausted:
  "(case hops now n (NewEvent t rnd origin ty payload) of
      None \<Rightarrow> False
    | Some e \<Rightarrow> ev_TTL e = (if n = 0 then 8 else (8 - int n) mod 8)) \<and>
   (prepare now e = None \<longleftrightarrow> ev_TTL e < 0)"
proof
  show "case hops now n (NewEvent t rnd origin ty payload) of
      None \<Rightarrow> False
    | Some e \<Rightarrow> ev_TTL e = (if n = 0 then 8 else (8 - int n) mod 8)"
  proof (induction n)
    case (Suc n)
    then obtain e where e: "hops now n (NewEvent t rnd origin ty payload) = Some e"
      "ev_TTL e = (if n = 0 then 8 else (8 - int n) mod 8)"
      by (auto split: option.splits)
    have "(ev_TTL e - 1) mod 8 = (8 - int (Suc n)) mod 8"
      using e(2) mod_diff_left_eq [of "8 - int n" 8 1] by (cases "n = 0") (simp_all add: algebra_simps)
    moreover have "0 \<le> ev_TTL e" "ev_TTL e \<le> 8"
      using e(2) pos_mod_sign [of 8 "8 - int n"] pos_mod_bound [of 8 "8 - int n"] by auto
    ultimately show ?case
      using prepare_TTL [of e now] e(1) by auto
  qed (simp add: NewEvent_def defaultTTL_def)
qed (simp add: prepare_def Let_def)

section \<open>Requests and replies\<close>

fun dispatched :: "'h bus_op \<Rightarrow> (time \<times> Event) list" where
  "dispatched (OpDispatch now e) = [(now, e)]"
| "dispatched (OpRequest now rnd e) = [(now, with_ID rnd e)]"
| "dispatched _ = []"

text \<open>The first dispatched event that is a reply to the request, as it is delivered.\<close>

fun first_reply :: "string \<Rightarrow> (time \<times> Event) list \<Rightarrow> Event option" where
  "first_reply rid [] = None"
| "first_reply rid ((now, e) # es) =
     (case prepare now e of
        Some e' \<Rightarrow> if ev_ReplyTo e' = rid then Some e' else first_reply rid es
      | None \<Rightarrow> first_reply rid es)"

text \<open>Calls that start or end a request with the same identifier.\<close>

fun touches :: "string \<Rightarrow> 'h bus_op \<Rightarrow> bool" where
  "touches rid (OpRequest now rnd e) \<longleftrightarrow> ev_ID (with_ID rnd e) = rid"
| "touches rid (OpRequestEnd r) \<longleftrightarrow> r = rid"
| "touches rid _ \<longleftrightarrow> False"

lemma first_reply_append:
  "first_reply rid (xs @ ys) = (case first_reply rid xs of Some r \<Rightarrow> Some r | None \<Rightarrow> first_reply rid ys)"
  by (induction rid xs rule: first_reply.induct) (auto split: option.splits)

lemma newID_nonempty: "newID rnd \<noteq> ''''"
  by (simp add: newID_def Let_def)

lemma with_ID_nonempty: "ev_ID (with_ID rnd e) \<noteq> ''''"
  by (simp add: with_ID_def newID_nonempty)

lemma chan_buf_signal:
  assumes "pending_inv b" "gomap_get (pending b) rid = Some ch" "rid \<noteq> ''''"
  shows "chan_buf (signal e b) ch =
    (if chan_buf b ch = None \<and> ev_ReplyTo e = rid then Some e else chan_buf b ch)"
  using assms by (auto simp: signal_def pending_inv_def split: option.split)

lemma chan_buf_Dispatch:
  assumes "pending_inv b" "gomap_get (pending b) rid = Some ch" "rid \<noteq> ''''"
  shows "chan_buf (fst (Dispatch now e b)) ch =
    (case chan_buf b ch of Some r \<Rightarrow> Some r | None \<Rightarrow> first_reply rid [(now, e)])"
  by (auto simp: Dispatch_state chan_buf_signal [OF assms] split: option.split)

definition opened :: "nat \<Rightarrow> string \<Rightarrow> 'h bus \<Rightarrow> 'h bus" where
  "opened ch rid b =
     b\<lparr>next_chan := ch + 1, chan_buf := (chan_buf b)(ch := None), pending := gomap_set (pending b) rid ch\<rparr>"

lemma Request_start_opened:
  "Request_start now rnd e b =
     ((ev_ID (with_ID rnd e), next_chan b),
      Dispatch now (with_ID rnd e) (opened (next_chan b) (ev_ID (with_ID rnd e)) b))"
  by (simp add: Request_start_def opened_def Let_def)

lemma pending_inv_opened: "pending_inv b \<Longrightarrow> pending_inv (opened (next_chan b) rid b)"
  by (auto simp: pending_inv_def opened_def less_Suc_eq split: if_splits)

lemma chan_buf_step:
  assumes inv: "pending_inv b" and rid: "gomap_get (pending b) rid = Some ch" "rid \<noteq> ''''" "\<not> touches rid oper"
  shows "gomap_get (pending (bus_step b oper)) rid = Some ch \<and>
    chan_buf (bus_step b oper) ch =
      (case chan_buf b ch of Some r \<Rightarrow> Some r | None \<Rightarrow> first_reply rid (dispatched oper))"
proof (cases oper)
  case (OpRequest now rnd e)
  let ?b = "opened (next_chan b) (ev_ID (with_ID rnd e)) b"
  have "ch \<noteq> next_chan b"
    using inv rid by (auto simp: pending_inv_def)
  then have "gomap_get (pending ?b) rid = Some ch" "chan_buf ?b ch = chan_buf b ch"
    using rid OpRequest by (auto simp: opened_def)
  then show ?thesis
    using chan_buf_Dispatch [OF pending_inv_opened [OF inv], of _ rid ch now "with_ID rnd e"] rid OpRequest
    by (simp add: Request_start_opened split: option.split)
qed (use assms chan_buf_Dispatch [OF inv rid(1,2)] in
    \<open>auto simp: Register_def Unregister_def Subscribe_def unsubscribe_def OpenGate_def CloseGate_def
      Shutdown_def Request_end_def Let_def split: option.split\<close>)

lemma chan_buf_run:
  assumes "bus_inv b" "gomap_get (pending b) rid = Some ch" "rid \<noteq> ''''" "\<forall>oper \<in> set ops. \<not> touches rid oper"
  shows "gomap_get (pending (run bus_step b ops)) rid = Some ch \<and>
    chan_buf (run bus_step b ops) ch =
      (case chan_buf b ch of Some r \<Rightarrow> Some r | None \<Rightarrow> first_reply rid (concat (map dispatched ops)))"
  using assms
proof (induction ops arbitrary: b)
  case (Cons oper ops)
  have "pending_inv b"
    using Cons.prems(1) by (simp add: bus_inv_def)
  from chan_buf_step [OF this Cons.prems(2,3), of oper] Cons.prems
  show ?case
    using Cons.IH [of "bus_step b oper"] bus_inv_step [OF Cons.prems(1)]
    by (auto simp: first_reply_append split: option.splits)
qed (simp split: option.split)

text \<open>
  C12. Request and reply. A request on any reachable bus, followed by any interleaving of other
  calls that do not start or end a request under the same identifier, can return exactly the
  first event that was dispatched in reply to it (a gated channel and a closed gate do not
  matter), no other; later replies are dropped, and once the request has ended its identifier is
  no longer pending, so a late reply changes nothing.
\<close>

theorem Request_first_reply:
  fixes css ops0 now rnd e ops ctxDone late
  defines "b0 \<equiv> run bus_step (NewBus (map WithGatedChannels css)) ops0"
  defines "rid \<equiv> fst (fst (Request_start now rnd e b0))"
  defines "ch \<equiv> snd (fst (Request_start now rnd e b0))"
  defines "b \<equiv> run bus_step (bus_step b0 (OpRequest now rnd e)) ops"
  assumes "\<forall>oper \<in> set ops. \<not> touches rid oper" "ev_ReplyTo late = rid"
  shows "{r. Reply r \<in> Request_outcomes ctxDone ch b} =
      set_option (first_reply rid ((now, with_ID rnd e) # concat (map dispatched ops))) \<and>
    signal late (Request_end rid b) = Request_end rid b"
proof -
  have inv: "bus_inv b0"
    unfolding b0_def by (rule bus.run_inv [OF bus_inv_New])
  have ids: "rid = ev_ID (with_ID rnd e)" "ch = next_chan b0"
    by (simp_all add: rid_def ch_def Request_start_opened)
  let ?b1 = "bus_step b0 (OpRequest now rnd e)"
  have p: "gomap_get (pending (opened ch rid b0)) rid = Some ch" "pending_inv (opened ch rid b0)"
    "chan_buf (opened ch rid b0) ch = None"
    using inv pending_inv_opened by (auto simp: opened_def ids bus_inv_def)
  have ne: "rid \<noteq> ''''"
    by (simp add: ids with_ID_nonempty)
  have m: "gomap_get (pending ?b1) rid = Some ch" "chan_buf ?b1 ch = first_reply rid [(now, with_ID rnd e)]"
    using chan_buf_Dispatch [OF p(2,1), of now "with_ID rnd e"] p with_ID_nonempty [of rnd e]
    by (auto simp: Request_start_opened ids)
  have "chan_buf b ch = (case first_reply rid [(now, with_ID rnd e)] of
      Some r \<Rightarrow> Some r | None \<Rightarrow> first_reply rid (concat (map dispatched ops)))"
    using chan_buf_run [OF bus_inv_step [OF inv] m(1) ne assms(5)] m(2)
    by (simp only: b_def)
  also have "\<dots> = first_reply rid ((now, with_ID rnd e) # concat (map dispatched ops))"
    using first_reply_append [of rid "[(now, with_ID rnd e)]" "concat (map dispatched ops)"]
    by (simp only: append_Cons append_Nil)
  finally have "chan_buf b ch = first_reply rid ((now, with_ID rnd e) # concat (map dispatched ops))" .
  then show ?thesis
    using assms(6) by (auto simp: Request_outcomes_def signal_def Request_end_def split: option.splits)
qed

definition ping :: Event where
  "ping = \<lparr>ev_ID = ''q1'', ev_Type = ''STORAGE.READ'', ev_Payload = [], ev_ReplyTo = '''', ev_Origin = ''t'',
     ev_Timestamp = 5, ev_TTL = 8\<rparr>"

theorem Request_first_reply_witness:
  "{r. Reply r \<in> Request_outcomes False 0
      (run bus_step (bus_step (NewBus [WithGatedChannels [''storage'']] :: nat bus) (OpRequest 1 [] ping))
        [OpDispatch 2 (ping\<lparr>ev_ID := ''r1'', ev_ReplyTo := ''q1''\<rparr>),
         OpDispatch 3 (ping\<lparr>ev_ID := ''r2'', ev_ReplyTo := ''q1''\<rparr>)])} =
     {ping\<lparr>ev_ID := ''r1'', ev_ReplyTo := ''q1'', ev_TTL := 7\<rparr>}"
  using Request_first_reply [of "[OpDispatch 2 (ping\<lparr>ev_ID := ''r1'', ev_ReplyTo := ''q1''\<rparr>),
         OpDispatch 3 (ping\<lparr>ev_ID := ''r2'', ev_ReplyTo := ''q1''\<rparr>)]" 1 "[]" ping "[[''storage'']]"
       "[] :: nat bus_op list" "ping\<lparr>ev_ReplyTo := ''q1''\<rparr>" False]
  by (simp add: Request_start_opened with_ID_def prepare_def ping_def NewBus_def WithGatedChannels_def)

text \<open>
  Shutdown stops every registered module exactly once, whatever the others return, and leaves
  the bus cancelled, so that a waiting request can return the shut-down error; the bus still
  routes events afterwards.
\<close>

theorem Shutdown_stops_all:
  fixes css ops
  defines "b \<equiv> run bus_step (NewBus (map WithGatedChannels css)) ops"
  shows "map fst (snd (Shutdown b)) = map fst (modules b) \<and> distinct (map fst (snd (Shutdown b))) \<and>
    BusShutDown \<in> Request_outcomes ctxDone ch (fst (Shutdown b)) \<and>
    snd (Dispatch now e (fst (Shutdown b))) = snd (Dispatch now e b)"
proof -
  have inv: "routing_inv b"
    using bus.run_inv [OF bus_inv_New] by (auto simp: b_def bus_inv_def)
  then have eq: "map fst (snd (Shutdown b)) = map fst (modules b)"
    by (auto simp: Shutdown_def routing_inv_def)
  moreover have "distinct (map fst (modules b))"
    using inv by (simp add: routing_inv_def gomap_def)
  moreover have "snd (Dispatch now e (fst (Shutdown b))) = snd (Dispatch now e b)"
    by (auto simp: Dispatch_def Shutdown_def Let_def signal_def handlersOf_def subscribersOf_def gated_def
        split: option.split)
  moreover have "BusShutDown \<in> Request_outcomes ctxDone ch (fst (Shutdown b))"
    by (simp add: Request_outcomes_def Shutdown_def)
  ultimately show ?thesis
    by (simp only: eq)
qed

end
