(* ===== verification/Grim_Kernel_Registry.thy ===== *)
theory Grim_Kernel_Registry
  imports Grim_Kernel_Bus
begin

text \<open>
  \<open>engine/kernel/registry.go\<close> and \<open>module_factory.go\<close>: ordered start-up of modules over a
  dispatcher. The registry only uses the dispatcher's \<open>Register\<close>, so it is defined for any
  implementation of it; the contract it relies on is the locale \<open>dispatcher\<close>, which the bus
  satisfies. Starting a module is code of the module: a function that may fail and may use the
  dispatcher.
\<close>

section \<open>Modules\<close>

record ModuleConfig =
  mc_ID :: string
  mc_Channels :: "string list"
  mc_DebugLogging :: bool

record BaseModule =
  bm_id :: string
  bm_channels :: "string list"

definition NewBaseModule :: "ModuleConfig \<Rightarrow> BaseModule" where
  "NewBaseModule cfg = \<lparr>bm_id = mc_ID cfg, bm_channels = mc_Channels cfg\<rparr>"

definition BaseModule_ID :: "BaseModule \<Rightarrow> string" where
  "BaseModule_ID b = bm_id b"

definition BaseModule_Channels :: "BaseModule \<Rightarrow> string list" where
  "BaseModule_Channels b = bm_channels b"

text \<open>A \<open>FactoryFunc\<close> is the function itself.\<close>

definition FactoryFunc_Create :: "(ModuleConfig \<Rightarrow> go_error + 'h Module) \<Rightarrow> ModuleConfig \<Rightarrow> go_error + 'h Module" where
  "FactoryFunc_Create f cfg = f cfg"

section \<open>The registry\<close>

record ('h, 'd) Registry =
  reg_bus :: 'd
  reg_started :: "'h Module list"

type_synonym ('h, 'd) registerer = "'h Module \<Rightarrow> 'd \<Rightarrow> string option \<times> 'd"

definition NewRegistry :: "'d \<Rightarrow> ('h, 'd) Registry" where
  "NewRegistry d = \<lparr>reg_bus = d, reg_started = []\<rparr>"

text \<open>The error of \<open>Add\<close> names the module and wraps the error of the dispatcher.\<close>

definition Registry_Add ::
  "('h, 'd) registerer \<Rightarrow> 'h Module \<Rightarrow> ('h, 'd) Registry \<Rightarrow> (string \<times> string) option \<times> ('h, 'd) Registry" where
  "Registry_Add register m r =
     (case register m (reg_bus r) of
        (Some err, d) \<Rightarrow> (Some (m_ID m, err), r\<lparr>reg_bus := d\<rparr>)
      | (None, d) \<Rightarrow> (None, r\<lparr>reg_bus := d, reg_started := reg_started r @ [m]\<rparr>))"

text \<open>The loop of \<open>StartAll\<close>: its result, the modules it called \<open>Start\<close> on, and the dispatcher.\<close>

fun startLoop ::
  "('h Module \<Rightarrow> 'd \<Rightarrow> go_error option \<times> 'd) \<Rightarrow> 'h Module list \<Rightarrow> 'd \<Rightarrow>
   (string \<times> go_error) option \<times> 'h Module list \<times> 'd" where
  "startLoop start [] d = (None, [], d)"
| "startLoop start (m # ms) d =
     (case start m d of
        (Some err, d) \<Rightarrow> (Some (m_ID m, err), [m], d)
      | (None, d) \<Rightarrow> (case startLoop start ms d of (res, called, d) \<Rightarrow> (res, m # called, d)))"

definition StartAll ::
  "('h Module \<Rightarrow> 'd \<Rightarrow> go_error option \<times> 'd) \<Rightarrow> ('h, 'd) Registry \<Rightarrow>
   (string \<times> go_error) option \<times> 'h Module list \<times> ('h, 'd) Registry" where
  "StartAll start r =
     (case startLoop start (reg_started r) (reg_bus r) of (res, called, d) \<Rightarrow> (res, called, r\<lparr>reg_bus := d\<rparr>))"

definition Registry_Bus :: "('h, 'd) Registry \<Rightarrow> 'd" where
  "Registry_Bus r = reg_bus r"

text \<open>A copy of the list: modules themselves are shared, the slice is not.\<close>

definition Registry_Modules :: "('h, 'd) Registry \<Rightarrow> 'h Module list" where
  "Registry_Modules r = reg_started r"

section \<open>The contract of a dispatcher\<close>

text \<open>
  What the registry relies on: \<open>Register\<close> fails exactly when a module with the same identifier
  is registered, changes nothing when it fails, and otherwise adds the module as the last one.
\<close>

locale dispatcher =
  fixes register :: "('h, 'd) registerer"
    and registered :: "'d \<Rightarrow> 'h Module list"
    and ok :: "'d \<Rightarrow> bool"
  assumes register_ok: "ok d \<Longrightarrow> ok (snd (register m d))"
    and register_fails_iff: "ok d \<Longrightarrow> fst (register m d) \<noteq> None \<longleftrightarrow> m_ID m \<in> m_ID ` set (registered d)"
    and register_failed: "fst (register m d) \<noteq> None \<Longrightarrow> snd (register m d) = d"
    and register_added: "ok d \<Longrightarrow> fst (register m d) = None \<Longrightarrow> registered (snd (register m d)) = registered d @ [m]"
begin

definition add_all :: "('h, 'd) Registry \<Rightarrow> 'h Module list \<Rightarrow> ('h, 'd) Registry" where
  "add_all r ms = foldl (\<lambda>r m. snd (Registry_Add register m r)) r ms"

lemma add_step:
  fixes m
  assumes "ok (reg_bus r)" "reg_started r = registered (reg_bus r)"
  defines "r' \<equiv> snd (Registry_Add register m r)"
  shows "ok (reg_bus r') \<and> reg_started r' = registered (reg_bus r') \<and>
    reg_started r' = (if m_ID m \<in> m_ID ` set (reg_started r) then reg_started r else reg_started r @ [m])"
proof (cases "register m (reg_bus r)")
  case (Pair res d)
  then show ?thesis
    using assms register_ok [of "reg_bus r" m] register_fails_iff [of "reg_bus r" m]
      register_failed [of m "reg_bus r"] register_added [of "reg_bus r" m]
    by (cases res) (auto simp: r'_def Registry_Add_def)
qed

text \<open>Registering a list of modules keeps the first module of every identifier.\<close>

lemma add_all_started:
  assumes "ok (reg_bus r)" "reg_started r = registered (reg_bus r)"
  shows "reg_started (add_all r ms) = registered (reg_bus (add_all r ms)) \<and>
    reg_started (add_all r ms) =
      foldl (\<lambda>acc m. if m_ID m \<in> m_ID ` set acc then acc else acc @ [m]) (reg_started r) ms"
  using assms
proof (induction ms arbitrary: r)
  case (Cons m ms)
  let ?r = "snd (Registry_Add register m r)"
  have ok: "ok (reg_bus ?r)" and eq: "reg_started ?r = registered (reg_bus ?r)"
    and st: "reg_started ?r = (if m_ID m \<in> m_ID ` set (reg_started r) then reg_started r else reg_started r @ [m])"
    using add_step [OF Cons.prems, of m] by blast+
  have step: "add_all r (m # ms) = add_all ?r ms"
    by (simp add: add_all_def)
  show ?case
    unfolding step foldl.simps st [symmetric] by (rule Cons.IH [OF ok eq])
qed (simp add: add_all_def)

end

lemma modules_New: "modules (NewBus (map WithGatedChannels css)) = []"
  by (induction css rule: rev_induct) (simp_all add: NewBus_def WithGatedChannels_def)

lemma Register_result:
  "fst (Register m b) \<noteq> None \<longleftrightarrow> m_ID m \<in> fst ` set (modules b)"
  "fst (Register m b) \<noteq> None \<Longrightarrow> snd (Register m b) = b"
  by (auto simp: Register_def map_of_eq_None_iff split: option.splits)
    (metis fst_conv image_eqI map_of_SomeD, metis domI dom_map_of_conv_image_fst)

lemma Register_modules:
  "fst (Register m b) = None \<Longrightarrow> modules (snd (Register m b)) = modules b @ [(m_ID m, m)]"
  by (auto simp: Register_def gomap_set_fresh map_of_eq_None_iff split: option.splits)

lemma modules_keys:
  "routing_inv b \<Longrightarrow> m_ID ` set (map snd (modules b)) = fst ` set (modules b)"
  by (force simp: routing_inv_def)

interpretation bus_dispatcher: dispatcher Register "\<lambda>b. map snd (modules b)" routing_inv
proof unfold_locales
  fix d :: "'a bus" and m :: "'a Module"
  assume d: "routing_inv d"
  show "routing_inv (snd (Register m d))"
    using d by (rule routing_inv_Register)
  show "fst (Register m d) \<noteq> None \<longleftrightarrow> m_ID m \<in> m_ID ` set (map snd (modules d))"
    by (simp only: modules_keys [OF d] Register_result)
qed (simp_all add: Register_result Register_modules)

text \<open>The dispatcher after the \<open>Start\<close> calls on a list of modules, whatever their errors.\<close>

definition started_bus :: "('h Module \<Rightarrow> 'd \<Rightarrow> go_error option \<times> 'd) \<Rightarrow> 'd \<Rightarrow> 'h Module list \<Rightarrow> 'd" where
  "started_bus start d ms = foldl (\<lambda>d m. snd (start m d)) d ms"

lemma started_bus_simps [simp]:
  "started_bus start d [] = d"
  "started_bus start d (m # ms) = started_bus start (snd (start m d)) ms"
  by (simp_all add: started_bus_def)

lemma list_all_upto: "list_all P [0..<n] \<longleftrightarrow> (\<forall>i<n. P i)"
  by (auto simp: list_all_iff)

lemma startLoop_result:
  "case startLoop start ms d of
     (None, called, d') \<Rightarrow>
       called = ms \<and> (\<forall>k<length ms. fst (start (ms ! k) (started_bus start d (take k ms))) = None) \<and>
       d' = started_bus start d ms
   | (Some (mid, e), called, d') \<Rightarrow>
       (\<exists>k. k < length ms \<and> called = take (Suc k) ms \<and> mid = m_ID (ms ! k) \<and>
          fst (start (ms ! k) (started_bus start d (take k ms))) = Some e \<and>
          (\<forall>j<k. fst (start (ms ! j) (started_bus start d (take j ms))) = None) \<and>
          d' = started_bus start d (take (Suc k) ms))"
proof (induction ms arbitrary: d)
  case (Cons m ms)
  show ?case
  proof (cases "start m d")
    case (Pair res d')
    show ?thesis
    proof (cases res)
      case None
      note ih = Cons.IH [of d'] and head = Pair None
      obtain r called d'' where l: "startLoop start ms d' = (r, called, d'')"
        by (cases "startLoop start ms d'")
      show ?thesis
      proof (cases r)
        case None
        then show ?thesis
          using ih head l by (simp add: All_less_Suc2)
      next
        case (Some me)
        then obtain k where "k < length ms" "called = take (Suc k) ms" "fst me = m_ID (ms ! k)"
          "fst (start (ms ! k) (started_bus start d' (take k ms))) = Some (snd me)"
          "\<forall>j<k. fst (start (ms ! j) (started_bus start d' (take j ms))) = None"
          "d'' = started_bus start d' (take (Suc k) ms)"
          using ih l by (cases me) auto
        moreover from this have "\<forall>j<Suc k. fst (start ((m # ms) ! j) (started_bus start d (take j (m # ms)))) = None"
          using head by (simp add: All_less_Suc2)
        ultimately have "\<exists>k. k < length (m # ms) \<and> m # called = take (Suc k) (m # ms) \<and> fst me = m_ID ((m # ms) ! k) \<and>
            fst (start ((m # ms) ! k) (started_bus start d (take k (m # ms)))) = Some (snd me) \<and>
            (\<forall>j<k. fst (start ((m # ms) ! j) (started_bus start d (take j (m # ms)))) = None) \<and>
            d'' = started_bus start d (take (Suc k) (m # ms))"
          using head by (intro exI [of _ "Suc k"]) simp
        moreover have "startLoop start (m # ms) d = (Some me, m # called, d'')"
          using head l Some by simp
        ultimately show ?thesis
          by (cases me) simp
      qed
    next
      case (Some e)
      then show ?thesis
        using Pair by (auto intro!: exI [of _ 0])
    qed
  qed
qed simp

text \<open>
  C38. Ordered start-up. Adding modules to a registry over a new bus records exactly the modules
  the bus has registered, in the order of addition, keeping the first module of each identifier.
  Starting calls \<open>Start\<close> on them in that order, each with the bus as the earlier calls have left it.
  It returns no error exactly when none of these calls fails, and has then called all of them; else
  it stops at the first call that fails and returns its error with the identifier of its module.
\<close>

theorem registry_starts_in_order:
  fixes css ms start
  defines "r0 \<equiv> NewRegistry (NewBus (map WithGatedChannels css))"
  defines "r \<equiv> foldl (\<lambda>r m. snd (Registry_Add Register m r)) r0 ms"
  defines "mods \<equiv> Registry_Modules r"
  defines "bus_at k \<equiv> foldl (\<lambda>d m. snd (start m d)) (Registry_Bus r) (take k mods)"
  defines "err k \<equiv> fst (start (mods ! k) (bus_at k))"
  shows "mods = map snd (modules (Registry_Bus r)) \<and>
    mods = foldl (\<lambda>acc m. if m_ID m \<in> m_ID ` set acc then acc else acc @ [m]) [] ms \<and>
    (case StartAll start r of
       (None, called, r') \<Rightarrow>
         called = mods \<and> list_all (\<lambda>k. err k = None) [0..<length mods] \<and>
         Registry_Bus r' = bus_at (length mods) \<and> Registry_Modules r' = mods
     | (Some (mid, e), called, r') \<Rightarrow>
         (\<exists>k. k < length mods \<and> called = take (Suc k) mods \<and> mid = m_ID (mods ! k) \<and> err k = Some e \<and>
            list_all (\<lambda>j. err j = None) [0..<k] \<and>
            Registry_Bus r' = bus_at (Suc k) \<and> Registry_Modules r' = mods))"
proof -
  have inv: "routing_inv (reg_bus r0)" "reg_started r0 = map snd (modules (reg_bus r0))"
    using bus_inv_New by (auto simp: r0_def NewRegistry_def bus_inv_def modules_New)
  have "reg_started r0 = []"
    by (simp add: r0_def NewRegistry_def)
  then have "mods = map snd (modules (Registry_Bus r)) \<and>
      mods = foldl (\<lambda>acc m. if m_ID m \<in> m_ID ` set acc then acc else acc @ [m]) [] ms"
    using bus_dispatcher.add_all_started [OF inv, of ms, unfolded bus_dispatcher.add_all_def]
    unfolding mods_def Registry_Modules_def Registry_Bus_def r_def by (metis (no_types))
  moreover have "case StartAll start r of
       (None, called, r') \<Rightarrow>
         called = mods \<and> list_all (\<lambda>k. err k = None) [0..<length mods] \<and>
         Registry_Bus r' = bus_at (length mods) \<and> Registry_Modules r' = mods
     | (Some (mid, e), called, r') \<Rightarrow>
         (\<exists>k. k < length mods \<and> called = take (Suc k) mods \<and> mid = m_ID (mods ! k) \<and> err k = Some e \<and>
            list_all (\<lambda>j. err j = None) [0..<k] \<and>
            Registry_Bus r' = bus_at (Suc k) \<and> Registry_Modules r' = mods)"
    using startLoop_result [where start = start and ms = mods and d = "Registry_Bus r"]
    by (cases "startLoop start mods (Registry_Bus r)")
      (simp add: StartAll_def err_def bus_at_def list_all_upto Registry_Bus_def mods_def
        Registry_Modules_def started_bus_def split: prod.splits option.splits, blast)
  ultimately show ?thesis
    by (elim conjE) (intro conjI)
qed

end
