(* ===== verification/Grim_Kernel_Concurrency.thy ===== *)
theory Grim_Kernel_Concurrency
  imports Grim_Kernel_Bus
begin

text \<open>
  The event bus of \<open>engine/kernel/bus.go\<close> under concurrency. \<open>Grim_Kernel_Bus\<close> takes each method as
  one step; here the calls are cut where the code gives up a mutex. \<open>Dispatch\<close> looks up the waiting
  request, sends on its channel, reads the gate and reads the handlers in four separate steps,
  \<open>Request\<close> goes on to a \<open>select\<close> and a deferred deletion, and \<open>Shutdown\<close> waits for the stop calls
  it has started. A running call or goroutine is a task, and the tasks of a kernel step in any order,
  between any new calls. What a handler does on the bus is a new call like any other; handlers and
  stop calls are taken to end.
\<close>

section \<open>Tasks\<close>

text \<open>What follows a \<open>Dispatch\<close>: the return to its caller, or the wait of the \<open>Request\<close> that called it.\<close>

datatype continuation = CReturn | CWait string nat

text \<open>
  A wait carries whether the context of the caller is done. The stop calls of a shutdown that have
  not returned are kept in one task, with whether \<open>Shutdown\<close> still waits for them and whether its
  context is done.
\<close>

datatype 'h task =
    TLookup Event continuation
  | TSend nat Event continuation
  | TGate Event continuation
  | TRoute Event continuation
  | THandler 'h Event
  | TWait string nat bool
  | TEnd string request_outcome
  | TStops bool bool "'h Module list"

fun resume :: "continuation \<Rightarrow> 'h task list" where
  "resume CReturn = []"
| "resume (CWait rid ch) = [TWait rid ch False]"

definition drop_nth :: "nat \<Rightarrow> 'a list \<Rightarrow> 'a list" where
  "drop_nth i xs = take i xs @ drop (Suc i) xs"

definition panics :: "'h Module \<Rightarrow> bool" where
  "panics m = (case m_Stop m of Panicked v \<Rightarrow> True | _ \<Rightarrow> False)"

text \<open>The moves of a task: the bus after it and the tasks that take its place.\<close>

fun task_moves :: "'h task \<Rightarrow> 'h bus \<Rightarrow> ('h bus \<times> 'h task list) list" where
  "task_moves (TLookup e k) b =
     [(b, if ev_ReplyTo e \<noteq> ''''
          then (case gomap_get (pending b) (ev_ReplyTo e) of
                  Some ch \<Rightarrow> [TSend ch e k]
                | None \<Rightarrow> [TGate e k])
          else [TGate e k])]"
| "task_moves (TSend ch e k) b =
     [(case chan_buf b ch of
         None \<Rightarrow> b\<lparr>chan_buf := (chan_buf b)(ch := Some e)\<rparr>
       | Some _ \<Rightarrow> b,
       [TGate e k])]"
| "task_moves (TGate e k) b = [(b, if gated b (Channel (ev_Type e)) then resume k else [TRoute e k])]"
| "task_moves (TRoute e k) b =
     [(b, resume k @ map (\<lambda>h. THandler (nh_handler h) e)
            (handlersOf b (Channel (ev_Type e)) @ subscribersOf b (ev_Type e)))]"
| "task_moves (THandler h e) b = [(b, [])]"
| "task_moves (TWait rid ch ctxDone) b =
     (case chan_buf b ch of
        Some r \<Rightarrow> [(b\<lparr>chan_buf := (chan_buf b)(ch := None)\<rparr>, [TEnd rid (Reply r)])]
      | None \<Rightarrow> []) @
     (if ctxDone then [(b, [TEnd rid ContextDone])] else []) @
     (if cancelled b then [(b, [TEnd rid BusShutDown])] else [])"
| "task_moves (TEnd rid outcome) b = [(Request_end rid b, [])]"
| "task_moves (TStops waiting ctxDone ms) b =
     map (\<lambda>i. (b, [TStops waiting ctxDone (drop_nth i ms)]))
       (filter (\<lambda>i. \<not> panics (ms ! i)) [0..<length ms]) @
     (if waiting \<and> (ms = [] \<or> ctxDone) then [(b\<lparr>cancelled := True\<rparr>, [TStops False ctxDone ms])] else []) @
     (if \<not> waiting \<and> ms = [] then [(b, [])] else [])"

text \<open>The first step of a call, and the task that carries on with it.\<close>

fun begin_call :: "'h bus_op \<Rightarrow> 'h bus \<Rightarrow> 'h bus \<times> 'h task list" where
  "begin_call (OpDispatch now e) b =
     (b, case prepare now e of None \<Rightarrow> [] | Some e \<Rightarrow> [TLookup e CReturn])"
| "begin_call (OpRequest now rnd e) b =
     (let e = with_ID rnd e;
          ch = next_chan b
      in (opened ch (ev_ID e) b,
          case prepare now e of
            None \<Rightarrow> resume (CWait (ev_ID e) ch)
          | Some e' \<Rightarrow> [TLookup e' (CWait (ev_ID e) ch)]))"
| "begin_call OpShutdown b = (b, [TStops True False (map snd (modules b))])"
| "begin_call (OpRequestEnd rid) b = (b, [])"
| "begin_call oper b = (bus_step b oper, [])"

section \<open>The kernel\<close>

record 'h kernel =
  k_bus :: "'h bus"
  k_tasks :: "'h task list"
  k_crashed :: bool

definition kernel_of :: "'h bus \<Rightarrow> 'h task list \<Rightarrow> 'h kernel" where
  "kernel_of b ts = \<lparr>k_bus = b, k_tasks = ts, k_crashed = False\<rparr>"

text \<open>A new call, a step of a task, the end of a context, and a stop call that panics.\<close>

datatype 'h klabel = KCall "'h bus_op" | KStep nat | KExpire nat | KPanic nat

fun expire :: "'h task \<Rightarrow> 'h task" where
  "expire (TWait rid ch c) = TWait rid ch True"
| "expire (TStops w c ms) = TStops w True ms"
| "expire t = t"

inductive kstep :: "'h kernel \<Rightarrow> 'h klabel \<Rightarrow> 'h kernel \<Rightarrow> bool" where
  k_call: "\<not> k_crashed \<sigma> \<Longrightarrow> begin_call oper (k_bus \<sigma>) = (b, ts) \<Longrightarrow>
    kstep \<sigma> (KCall oper) (\<sigma>\<lparr>k_bus := b, k_tasks := k_tasks \<sigma> @ ts\<rparr>)"
| k_task: "\<not> k_crashed \<sigma> \<Longrightarrow> i < length (k_tasks \<sigma>) \<Longrightarrow> (b, ts) \<in> set (task_moves (k_tasks \<sigma> ! i) (k_bus \<sigma>)) \<Longrightarrow>
    kstep \<sigma> (KStep i) (\<sigma>\<lparr>k_bus := b, k_tasks := take i (k_tasks \<sigma>) @ ts @ drop (Suc i) (k_tasks \<sigma>)\<rparr>)"
| k_context: "\<not> k_crashed \<sigma> \<Longrightarrow> i < length (k_tasks \<sigma>) \<Longrightarrow>
    kstep \<sigma> (KExpire i) (\<sigma>\<lparr>k_tasks := (k_tasks \<sigma>)[i := expire (k_tasks \<sigma> ! i)]\<rparr>)"
| k_panic: "\<not> k_crashed \<sigma> \<Longrightarrow> i < length (k_tasks \<sigma>) \<Longrightarrow> k_tasks \<sigma> ! i = TStops w c ms \<Longrightarrow>
    m \<in> set ms \<Longrightarrow> panics m \<Longrightarrow> kstep \<sigma> (KPanic i) (\<sigma>\<lparr>k_crashed := True\<rparr>)"

inductive_simps kstep_simps:
  "kstep \<sigma> (KCall oper) \<sigma>'" "kstep \<sigma> (KStep i) \<sigma>'" "kstep \<sigma> (KExpire i) \<sigma>'" "kstep \<sigma> (KPanic i) \<sigma>'"

section \<open>Calls that nothing interrupts\<close>

lemma kernel_of_step:
  "i = length ts \<Longrightarrow> (b', us) \<in> set (task_moves t b) \<Longrightarrow>
   kstep (kernel_of b (ts @ [t])) (KStep i) (kernel_of b' (ts @ us))"
  using kstep.k_task [of "kernel_of b (ts @ [t])" i b' us] by (simp add: kernel_of_def)

lemma kernel_of_call:
  "begin_call oper b = (b', us) \<Longrightarrow> kstep (kernel_of b ts) (KCall oper) (kernel_of b' (ts @ us))"
  using kstep.k_call [of "kernel_of b ts" oper b' us] by (simp add: kernel_of_def)

lemma signal_moves:
  "\<exists>n. trace kstep (kernel_of b (ts @ [TLookup e k])) (replicate n (KStep (length ts)))
     (kernel_of (signal e b) (ts @ [TGate e k]))"
proof (cases "\<exists>ch. ev_ReplyTo e \<noteq> '''' \<and> gomap_get (pending b) (ev_ReplyTo e) = Some ch")
  case True
  then obtain ch where ch: "ev_ReplyTo e \<noteq> ''''" "gomap_get (pending b) (ev_ReplyTo e) = Some ch"
    by blast
  have "kstep (kernel_of b (ts @ [TLookup e k])) (KStep (length ts)) (kernel_of b (ts @ [TSend ch e k]))"
    by (rule kernel_of_step) (simp_all add: ch)
  moreover have "kstep (kernel_of b (ts @ [TSend ch e k])) (KStep (length ts)) (kernel_of (signal e b) (ts @ [TGate e k]))"
    by (rule kernel_of_step) (simp_all add: ch signal_def split: option.split)
  ultimately show ?thesis
    by (intro exI [of _ 2]) (auto simp: numeral_2_eq_2)
next
  case False
  then have "kstep (kernel_of b (ts @ [TLookup e k])) (KStep (length ts)) (kernel_of (signal e b) (ts @ [TGate e k]))"
    by (intro kernel_of_step) (auto simp: signal_def split: option.split)
  then show ?thesis
    by (intro exI [of _ 1]) auto
qed

text \<open>
  Consistency of the two models: the steps of a \<open>Dispatch\<close> that runs without interruption add up to
  the atomic \<open>Dispatch\<close>, with the same bus and the same goroutines.
\<close>

lemma uninterrupted_dispatch:
  "\<exists>n. trace kstep (kernel_of b ts) (KCall (OpDispatch now e) # replicate n (KStep (length ts)))
     (kernel_of (fst (Dispatch now e b)) (ts @ map (\<lambda>(h, e). THandler h e) (snd (Dispatch now e b))))"
proof (cases "prepare now e")
  case None
  then show ?thesis
    using kernel_of_call [of "OpDispatch now e" b b "[]" ts] by (intro exI [of _ 0]) (simp add: Dispatch_def)
next
  case (Some e')
  let ?ch = "Channel (ev_Type e')" and ?b = "signal e' b"
  obtain n where "trace kstep (kernel_of b (ts @ [TLookup e' CReturn])) (replicate n (KStep (length ts)))
      (kernel_of ?b (ts @ [TGate e' CReturn]))"
    using signal_moves by blast
  moreover have "\<exists>n. trace kstep (kernel_of ?b (ts @ [TGate e' CReturn])) (replicate n (KStep (length ts)))
      (kernel_of (fst (Dispatch now e b)) (ts @ map (\<lambda>(h, e). THandler h e) (snd (Dispatch now e b))))"
  proof (cases "gated ?b ?ch")
    case True
    then show ?thesis
      using kernel_of_step [of "length ts" ts ?b "[]" "TGate e' CReturn" ?b]
      by (intro exI [of _ 1]) (auto simp: Dispatch_def Some Let_def)
  next
    case False
    then show ?thesis
      using kernel_of_step [of "length ts" ts ?b "[TRoute e' CReturn]" "TGate e' CReturn" ?b]
        kernel_of_step [of "length ts" ts ?b _ "TRoute e' CReturn" ?b]
      by (intro exI [of _ 2]) (auto simp: Dispatch_def Some Let_def numeral_2_eq_2 comp_def)
  qed
  ultimately obtain n m where
    "trace kstep (kernel_of b (ts @ [TLookup e' CReturn])) (replicate n (KStep (length ts)) @ replicate m (KStep (length ts)))
      (kernel_of (fst (Dispatch now e b)) (ts @ map (\<lambda>(h, e). THandler h e) (snd (Dispatch now e b))))"
    using trace_append by fast
  then show ?thesis
    using kernel_of_call [of "OpDispatch now e" b b "[TLookup e' CReturn]" ts] Some
    by (intro exI [of _ "n + m"]) (auto simp: replicate_add)
qed

section \<open>What the moves leave alone\<close>

lemma task_moves_bus:
  assumes "(b', us) \<in> set (task_moves t b)"
  shows "modules b' = modules b \<and> channelHandlers b' = channelHandlers b \<and> typeHandlers b' = typeHandlers b \<and>
    gatedChannels b' = gatedChannels b \<and> gateOpen b' = gateOpen b \<and> next_chan b' = next_chan b \<and>
    map_of (pending b') \<subseteq>\<^sub>m map_of (pending b)"
  using assms
  by (cases t) (auto simp: Request_end_def map_le_def split: option.splits if_splits)

lemma begin_call_bus: "begin_call oper b = (b', us) \<Longrightarrow>
  gatedChannels b' = gatedChannels b \<and> (oper \<noteq> OpOpenGate \<longrightarrow> \<not> gateOpen b \<longrightarrow> \<not> gateOpen b')"
  by (cases oper)
    (auto simp: Let_def opened_def Register_def Unregister_def Subscribe_def unsubscribe_def OpenGate_def CloseGate_def
      split: option.splits)

section \<open>Routing and replies\<close>

text \<open>Every channel belongs to the request that made it; nothing else is ever sent on it.\<close>

fun cont_owned :: "(nat \<Rightarrow> string) \<Rightarrow> nat \<Rightarrow> continuation \<Rightarrow> bool" where
  "cont_owned own n CReturn \<longleftrightarrow> True"
| "cont_owned own n (CWait rid ch) \<longleftrightarrow> own ch = rid \<and> ch < n"

fun task_owned :: "(nat \<Rightarrow> string) \<Rightarrow> nat \<Rightarrow> 'h task \<Rightarrow> bool" where
  "task_owned own n (TLookup e k) \<longleftrightarrow> cont_owned own n k"
| "task_owned own n (TSend ch e k) \<longleftrightarrow> own ch = ev_ReplyTo e \<and> ch < n \<and> cont_owned own n k"
| "task_owned own n (TGate e k) \<longleftrightarrow> cont_owned own n k"
| "task_owned own n (TRoute e k) \<longleftrightarrow> cont_owned own n k"
| "task_owned own n (TWait rid ch c) \<longleftrightarrow> own ch = rid \<and> ch < n"
| "task_owned own n (TEnd rid outcome) \<longleftrightarrow> (case outcome of Reply r \<Rightarrow> ev_ReplyTo r = rid | _ \<Rightarrow> True)"
| "task_owned own n (THandler h e) \<longleftrightarrow> True"
| "task_owned own n (TStops w c ms) \<longleftrightarrow> True"

definition bus_owned :: "(nat \<Rightarrow> string) \<Rightarrow> 'h bus \<Rightarrow> bool" where
  "bus_owned own b \<longleftrightarrow>
     (\<forall>rid ch. gomap_get (pending b) rid = Some ch \<longrightarrow> own ch = rid \<and> ch < next_chan b) \<and>
     (\<forall>ch r. chan_buf b ch = Some r \<and> ch < next_chan b \<longrightarrow> ev_ReplyTo r = own ch)"

definition kernel_ok :: "'h kernel \<Rightarrow> bool" where
  "kernel_ok \<sigma> \<longleftrightarrow> routing_inv (k_bus \<sigma>) \<and>
     (\<exists>own. bus_owned own (k_bus \<sigma>) \<and> list_all (task_owned own (next_chan (k_bus \<sigma>))) (k_tasks \<sigma>))"

lemma resume_owned [simp]: "list_all (task_owned own n) (resume k) \<longleftrightarrow> cont_owned own n k"
  by (cases k) simp_all

lemma task_moves_owned:
  assumes "(b', us) \<in> set (task_moves t b)" "bus_owned own b" "task_owned own (next_chan b) t"
  shows "bus_owned own b' \<and> list_all (task_owned own (next_chan b)) us"
  using assms
  by (cases t) (auto simp: bus_owned_def Request_end_def list.pred_map comp_def list.pred_True split: option.splits if_splits)

lemma cont_owned_new: "cont_owned own n k \<Longrightarrow> cont_owned (own(n := rid)) (Suc n) k"
  by (cases k) simp_all

lemma task_owned_new: "task_owned own n t \<Longrightarrow> task_owned (own(n := rid)) (Suc n) t"
  by (cases t) (simp_all add: cont_owned_new)

lemma bus_owned_opened: "bus_owned own b \<Longrightarrow> bus_owned (own(next_chan b := rid)) (opened (next_chan b) rid b)"
  by (auto simp: bus_owned_def opened_def less_Suc_eq)

lemma bus_owned_same:
  "pending b' = pending b \<Longrightarrow> chan_buf b' = chan_buf b \<Longrightarrow> next_chan b' = next_chan b \<Longrightarrow> bus_owned own b' \<longleftrightarrow> bus_owned own b"
  by (simp add: bus_owned_def)

lemma begin_call_ok:
  assumes "begin_call oper b = (b', us)" "routing_inv b" "bus_owned own b" "list_all (task_owned own (next_chan b)) ts"
  shows "routing_inv b' \<and>
    (\<exists>own'. bus_owned own' b' \<and> list_all (task_owned own' (next_chan b')) (ts @ us))"
proof (cases "\<exists>now rnd e. oper = OpRequest now rnd e")
  case True
  then obtain now rnd e where o: "oper = OpRequest now rnd e"
    by blast
  let ?rid = "ev_ID (with_ID rnd e)" and ?n = "next_chan b"
  have b': "b' = opened ?n ?rid b" and us: "list_all (task_owned (own(?n := ?rid)) (Suc ?n)) us"
    using assms(1) by (auto simp: o Let_def split: option.splits)
  have "routing_inv b'"
    using assms(2) by (simp add: b' opened_def routing_inv_def handlersOf_def)
  moreover have "list_all (task_owned (own(?n := ?rid)) (Suc ?n)) ts"
    using assms(4) by (auto simp: list_all_iff intro: task_owned_new)
  moreover have "next_chan b' = Suc ?n"
    by (simp add: b' opened_def)
  ultimately show ?thesis
    using us bus_owned_opened [OF assms(3), of ?rid] b' by auto
next
  case False
  have "routing_inv b'"
    using assms(1,2) routing_inv_step [of b oper] False by (cases oper) (auto simp del: bus_step.simps)
  moreover have "pending b' = pending b" "chan_buf b' = chan_buf b" "next_chan b' = next_chan b"
    using assms(1) False
    by (cases oper; auto simp: Register_def Unregister_def Subscribe_def unsubscribe_def OpenGate_def CloseGate_def Let_def
        split: option.splits)+
  moreover have "list_all (task_owned own (next_chan b)) us"
    using assms(1) False by (cases oper) (auto split: option.splits)
  ultimately show ?thesis
    using assms(3,4) bus_owned_same [of b' b own] by auto
qed

lemma kernel_ok_step:
  assumes ok: "kernel_ok \<sigma>" and "kstep \<sigma> l \<sigma>'"
  shows "kernel_ok \<sigma>'"
  using assms(2)
proof cases
  case (k_call oper b ts)
  with ok begin_call_ok [of oper "k_bus \<sigma>" b ts] show ?thesis
    by (fastforce simp: kernel_ok_def)
next
  case (k_task i b ts)
  from ok obtain own where own: "bus_owned own (k_bus \<sigma>)" "list_all (task_owned own (next_chan (k_bus \<sigma>))) (k_tasks \<sigma>)"
    by (auto simp: kernel_ok_def)
  then have "task_owned own (next_chan (k_bus \<sigma>)) (k_tasks \<sigma> ! i)"
    using k_task by (simp add: list_all_length)
  with task_moves_owned [OF k_task(5) own(1)] task_moves_bus [OF k_task(5)] own ok show ?thesis
    unfolding k_task kernel_ok_def
    by (auto simp: routing_inv_same [of b "k_bus \<sigma>"] list_all_iff dest: in_set_takeD in_set_dropD)
next
  case (k_context i)
  moreover have "task_owned own n (expire t) \<longleftrightarrow> task_owned own n t" for own n and t :: "'a task"
    by (cases t) simp_all
  ultimately show ?thesis
    using ok by (fastforce simp: kernel_ok_def list_all_length nth_list_update)
next
  case k_panic
  then show ?thesis
    using ok by (simp add: kernel_ok_def)
qed

interpretation kernel_steps: step_system kstep "\<lambda>_. True" kernel_ok
  by unfold_locales (rule kernel_ok_step)

lemma kernel_ok_new: "kernel_ok (kernel_of (NewBus (map WithGatedChannels css) :: 'h bus) [])"
proof -
  have "pending (NewBus (map WithGatedChannels css) :: 'h bus) = []"
    "chan_buf (NewBus (map WithGatedChannels css) :: 'h bus) = (\<lambda>_. None)"
    by (induction css rule: rev_induct) (simp_all add: NewBus_def WithGatedChannels_def)
  then show ?thesis
    using routing_reachable [of css "[]"] by (simp add: kernel_ok_def kernel_of_def bus_owned_def)
qed


lemmas bus_eval = kernel_of_def NewBus_def WithGatedChannels_def opened_def with_ID_def prepare_def ping_def
  Request_end_def gated_def Let_def handlersOf_def subscribersOf_def gomap_index_def

definition answered :: "nat klabel list" where
  "answered = [KCall (OpRequest 1 [] ping), KStep 0, KStep 0, KStep 0,
     KCall (OpDispatch 2 (ping\<lparr>ev_ID := ''r1'', ev_ReplyTo := ''q1''\<rparr>)), KStep 1, KStep 1, KStep 0]"


section \<open>The gate\<close>

text \<open>The events on a channel whose dispatch has passed the gate and whose goroutines are not done.\<close>

fun passed :: "'h task \<Rightarrow> Event set" where
  "passed (TRoute e k) = {e}"
| "passed (THandler h e) = {e}"
| "passed _ = {}"

definition past_gate :: "string \<Rightarrow> 'h kernel \<Rightarrow> Event set" where
  "past_gate channel \<sigma> = {e. e \<in> \<Union> (passed ` set (k_tasks \<sigma>)) \<and> Channel (ev_Type e) = channel}"

definition shut_for :: "string \<Rightarrow> Event set \<Rightarrow> 'h kernel \<Rightarrow> bool" where
  "shut_for channel E \<sigma> \<longleftrightarrow> gated (k_bus \<sigma>) channel \<and> past_gate channel \<sigma> \<subseteq> E"

lemma passed_resume: "u \<in> set (resume k) \<Longrightarrow> passed u = {}"
  by (cases k) simp_all

lemma passed_moves:
  assumes "(b', us) \<in> set (task_moves t b)" "gated b channel" "u \<in> set us" "e \<in> passed u" "Channel (ev_Type e) = channel"
  shows "e \<in> passed t"
  using assms
  by (cases t) (auto dest: passed_resume split: if_splits option.splits)

lemma passed_begin: "begin_call oper b = (b', us) \<Longrightarrow> \<Union> (passed ` set us) = {}"
  by (cases oper) (auto simp: Let_def split: option.splits)

lemma passed_expire [simp]: "passed (expire t) = passed t"
  by (cases t) simp_all

lemma shut_for_step:
  assumes "shut_for channel E \<sigma>" "l \<noteq> KCall OpOpenGate" "kstep \<sigma> l \<sigma>'"
  shows "shut_for channel E \<sigma>'"
  using assms(3)
proof cases
  case (k_call oper b ts)
  with assms(1,2) begin_call_bus [OF k_call(4)] passed_begin [OF k_call(4)] show ?thesis
    by (auto simp: shut_for_def past_gate_def gated_def)
next
  case (k_task i b ts)
  have "gated b channel"
    using task_moves_bus [OF k_task(5)] assms(1) by (simp add: shut_for_def gated_def)
  moreover have "past_gate channel \<sigma>' \<subseteq> past_gate channel \<sigma>"
    using passed_moves [OF k_task(5), of channel] assms(1) nth_mem [OF k_task(4)] unfolding k_task
    by (fastforce simp: past_gate_def shut_for_def dest: in_set_takeD in_set_dropD)
  ultimately show ?thesis
    using assms(1) by (auto simp: shut_for_def k_task)
next
  case (k_context i)
  have "past_gate channel \<sigma>' \<subseteq> past_gate channel \<sigma>"
    using nth_mem [OF k_context(4)] set_update_subset_insert [of "k_tasks \<sigma>" i] unfolding k_context
    by (fastforce simp: past_gate_def)
  then show ?thesis
    using assms(1) by (auto simp: shut_for_def k_context)
next
  case k_panic
  then show ?thesis
    using assms(1) by (simp add: shut_for_def past_gate_def)
qed

interpretation gate_shut: step_system kstep "\<lambda>l. l \<noteq> KCall OpOpenGate" "shut_for channel E"
  by unfold_locales (rule shut_for_step)

text \<open>
  C14. A closed gate holds, up to the calls under way. From a state in which a channel is gated, until
  the gate is opened, no event on that channel gets past the gate, whatever calls and steps come in
  between: those that are routed or handled later had passed when the gate was closed.
\<close>

theorem closed_gate_blocks:
  assumes "trace kstep \<sigma> ls \<sigma>'" "gated (k_bus \<sigma>) channel" "KCall OpOpenGate \<notin> set ls"
  shows "gated (k_bus \<sigma>') channel \<and> past_gate channel \<sigma>' \<subseteq> past_gate channel \<sigma>"
  using gate_shut.trace_inv [OF assms(1), of channel "past_gate channel \<sigma>"] assms(2,3)
  by (auto simp: shut_for_def list_all_iff)

theorem closed_gate_blocks_witness:
  "\<exists>\<sigma>. trace kstep (kernel_of (NewBus [WithGatedChannels [''storage'']] :: nat bus) [])
     [KCall (OpDispatch 1 ping), KStep 0, KCall OpCloseGate, KStep 0] \<sigma> \<and> past_gate ''STORAGE'' \<sigma> = {}"
proof -
  let ?\<sigma> = "kernel_of (NewBus [WithGatedChannels [''storage'']] :: nat bus) []"
  let ?ls = "[KCall (OpDispatch 1 ping), KStep 0, KCall OpCloseGate, KStep 0]"
  have up: "ToUpper ''storage'' = ''STORAGE''"
    by code_simp
  have "\<exists>\<sigma>. trace kstep ?\<sigma> ?ls \<sigma>"
    unfolding trace_simps kstep_simps by (simp add: bus_eval)
  moreover have "gated (k_bus ?\<sigma>) ''STORAGE''"
    by (simp add: bus_eval up)
  moreover have "past_gate ''STORAGE'' ?\<sigma> = {}"
    by (simp add: past_gate_def kernel_of_def)
  ultimately show ?thesis
    using closed_gate_blocks [of ?\<sigma> ?ls _ "''STORAGE''"] by (fastforce simp del: trace_simps)
qed

text \<open>
  The calls under way are not stopped: an event that has passed the gate is routed after
  \<open>CloseGate\<close> has returned.
\<close>

theorem passed_event_is_routed:
  "trace kstep (kernel_of b (ts @ [TRoute e CReturn])) [KCall OpCloseGate, KStep (length ts)]
     (kernel_of (CloseGate b)
       (ts @ map (\<lambda>h. THandler (nh_handler h) e) (handlersOf b (Channel (ev_Type e)) @ subscribersOf b (ev_Type e))))"
  using kernel_of_call [of OpCloseGate b "CloseGate b" "[]" "ts @ [TRoute e CReturn]"]
    kernel_of_step [of "length ts" ts "CloseGate b" _ "TRoute e CReturn" "CloseGate b"]
  by (auto simp: CloseGate_def handlersOf_def subscribersOf_def)

section \<open>Progress\<close>

definition fan :: "'h bus \<Rightarrow> Event \<Rightarrow> nat" where
  "fan b e = length (handlersOf b (Channel (ev_Type e)) @ subscribersOf b (ev_Type e))"

fun cont_work :: "continuation \<Rightarrow> nat" where
  "cont_work CReturn = 0"
| "cont_work (CWait rid ch) = 2"

text \<open>A bound on the steps a task and those it spawns can take while no new call is made.\<close>

fun work :: "'h bus \<Rightarrow> 'h task \<Rightarrow> nat" where
  "work b (TLookup e k) = 4 + fan b e + cont_work k"
| "work b (TSend ch e k) = 3 + fan b e + cont_work k"
| "work b (TGate e k) = 2 + fan b e + cont_work k"
| "work b (TRoute e k) = 1 + fan b e + cont_work k"
| "work b (THandler h e) = 1"
| "work b (TWait rid ch c) = 2"
| "work b (TEnd rid outcome) = 1"
| "work b (TStops w c ms) = 1 + length ms + of_bool w"

definition kernel_work :: "'h kernel \<Rightarrow> nat" where
  "kernel_work \<sigma> = sum_list (map (work (k_bus \<sigma>)) (k_tasks \<sigma>))"

text \<open>
  A task that cannot move: a request that waits without a reply, with a live context, on a bus that
  was not shut down; or stop calls all of which panic.
\<close>

fun stuck :: "'h bus \<Rightarrow> 'h task \<Rightarrow> bool" where
  "stuck b (TWait rid ch c) \<longleftrightarrow> chan_buf b ch = None \<and> \<not> c \<and> \<not> cancelled b"
| "stuck b (TStops w c ms) \<longleftrightarrow> ms \<noteq> [] \<and> list_all panics ms \<and> \<not> (w \<and> c)"
| "stuck b _ \<longleftrightarrow> False"

lemma work_resume [simp]: "sum_list (map (work b) (resume k)) = cont_work k"
  by (cases k) simp_all

lemma work_handlers [simp]: "sum_list (map (work b \<circ> (\<lambda>h. THandler (nh_handler h) e)) hs) = length hs"
  by (induction hs) simp_all

lemma work_same:
  assumes "channelHandlers b' = channelHandlers b" "typeHandlers b' = typeHandlers b"
  shows "work b' = work b"
proof
  show "work b' t = work b t" for t
    using assms by (cases t) (simp_all add: fan_def handlersOf_def subscribersOf_def)
qed

lemma task_moves_work:
  assumes "(b', us) \<in> set (task_moves t b)"
  shows "sum_list (map (work b') us) < work b t"
proof -
  have "work b' = work b"
    using task_moves_bus [OF assms] work_same by blast
  then show ?thesis
    using assms by (cases t) (auto simp: fan_def drop_nth_def split: option.splits if_splits)
qed

lemma kernel_work_step:
  assumes "kstep \<sigma> (KStep i) \<sigma>'"
  shows "kernel_work \<sigma>' < kernel_work \<sigma>"
proof -
  from assms obtain b us where \<sigma>': "\<sigma>' = \<sigma>\<lparr>k_bus := b, k_tasks := take i (k_tasks \<sigma>) @ us @ drop (Suc i) (k_tasks \<sigma>)\<rparr>"
    and i: "i < length (k_tasks \<sigma>)" and m: "(b, us) \<in> set (task_moves (k_tasks \<sigma> ! i) (k_bus \<sigma>))"
    by (auto simp: kstep_simps)
  have "work b = work (k_bus \<sigma>)"
    using task_moves_bus [OF m] work_same by blast
  moreover have "map (work b) (k_tasks \<sigma>) =
      map (work b) (take i (k_tasks \<sigma>)) @ work b (k_tasks \<sigma> ! i) # map (work b) (drop (Suc i) (k_tasks \<sigma>))"
    using id_take_nth_drop [OF i] by (metis list.simps(9) map_append)
  ultimately show ?thesis
    using task_moves_work [OF m] by (simp add: kernel_work_def \<sigma>')
qed

lemma stuck_iff: "stuck b t \<longleftrightarrow> task_moves t b = []"
  by (cases t) (auto simp: filter_empty_conv list_all_length split: option.splits)

lemma kernel_stuck_iff:
  "\<not> k_crashed \<sigma> \<Longrightarrow> list_all (stuck (k_bus \<sigma>)) (k_tasks \<sigma>) \<longleftrightarrow> \<not> (\<exists>i \<sigma>'. kstep \<sigma> (KStep i) \<sigma>')"
proof -
  assume "\<not> k_crashed \<sigma>"
  then have "(\<exists>\<sigma>'. kstep \<sigma> (KStep i) \<sigma>') \<longleftrightarrow> i < length (k_tasks \<sigma>) \<and> task_moves (k_tasks \<sigma> ! i) (k_bus \<sigma>) \<noteq> []" for i
    by (cases "task_moves (k_tasks \<sigma> ! i) (k_bus \<sigma>)") (auto simp: kstep_simps)
  then show ?thesis
    by (auto simp: list_all_length stuck_iff)
qed

lemma kstep_not_crashed: "kstep \<sigma> (KStep i) \<sigma>' \<Longrightarrow> \<not> k_crashed \<sigma>'"
  by (auto simp: kstep_simps)

lemma kernel_settles:
  "\<not> k_crashed \<sigma> \<Longrightarrow>
   \<exists>ks \<sigma>'. trace kstep \<sigma> (map KStep ks) \<sigma>' \<and> \<not> k_crashed \<sigma>' \<and> list_all (stuck (k_bus \<sigma>')) (k_tasks \<sigma>')"
proof (induction "kernel_work \<sigma>" arbitrary: \<sigma> rule: less_induct)
  case less
  show ?case
  proof (cases "list_all (stuck (k_bus \<sigma>)) (k_tasks \<sigma>)")
    case True
    then show ?thesis
      using less.prems by (intro exI [of _ "[]"] exI [of _ \<sigma>]) simp
  next
    case False
    then obtain i \<sigma>1 where s: "kstep \<sigma> (KStep i) \<sigma>1"
      using kernel_stuck_iff [OF less.prems] by blast
    then obtain ks \<sigma>' where "trace kstep \<sigma>1 (map KStep ks) \<sigma>'" "\<not> k_crashed \<sigma>'" "list_all (stuck (k_bus \<sigma>')) (k_tasks \<sigma>')"
      using less.hyps [OF kernel_work_step kstep_not_crashed] by blast
    then show ?thesis
      using s by (intro exI [of _ "i # ks"] exI [of _ \<sigma>']) auto
  qed
qed

lemma kernel_work_trace: "trace kstep \<sigma> (map KStep ks) \<sigma>' \<Longrightarrow> length ks + kernel_work \<sigma>' \<le> kernel_work \<sigma>"
  by (induction ks arbitrary: \<sigma>) (fastforce dest: kernel_work_step)+

text \<open>
  C15. The bus comes to rest. While no new call is made, every run of the tasks ends after at most
  \<open>kernel_work\<close> steps, the tasks can always be run to an end, and then nothing is left but requests
  that wait for a reply with a live context on a bus that was not shut down, and stop calls that
  panic: no call of \<open>Dispatch\<close> ever blocks, every handler is run, and after a shutdown no request
  waits.
\<close>

theorem bus_comes_to_rest:
  "{ks. \<exists>\<sigma>. trace kstep (kernel_of b ts) (map KStep ks) \<sigma>} \<subseteq> {ks. length ks \<le> kernel_work (kernel_of b ts)} \<and>
   (\<exists>ks \<sigma>. trace kstep (kernel_of b ts) (map KStep ks) \<sigma> \<and> list_all (stuck (k_bus \<sigma>)) (k_tasks \<sigma>))"
  using kernel_settles [of "kernel_of b ts"] by (fastforce simp: kernel_of_def dest: kernel_work_trace)

section \<open>Two requests with one identifier\<close>

text \<open>
  The deferred deletion removes the entry under the identifier of the request, whoever made it. Of
  two requests with the same identifier the second takes over the entry, and the end of the first
  removes it: a reply dispatched afterwards finds no entry, and the second request waits on, although
  it was answered, until its context ends.
\<close>

definition twice :: "nat klabel list" where
  "twice = [KCall (OpRequest 1 [] ping), KStep 0, KStep 0, KStep 0,
            KCall (OpRequest 2 [] ping), KStep 1, KStep 1, KStep 1,
            KExpire 0, KStep 0, KStep 0,
            KCall (OpDispatch 3 (ping\<lparr>ev_ID := ''r1'', ev_ReplyTo := ''q1''\<rparr>)), KStep 1, KStep 1, KStep 1]"

theorem duplicate_request_loses_reply:
  "\<exists>\<sigma>. trace kstep (kernel_of (NewBus []) []) twice \<sigma> \<and> k_tasks \<sigma> = [TWait ''q1'' 1 False] \<and>
     stuck (k_bus \<sigma>) (TWait ''q1'' 1 False)"
  unfolding twice_def trace_simps kstep_simps
  by (simp add: bus_eval)

end
