(* ===== verification/Grim_Format.thy ===== *)
theory Grim_Format
  imports Grim_JSON
begin

text \<open>
  The verbs of the Go package \<open>fmt\<close> that the engine formats client data with: \<open>%q\<close>, which is
  \<open>strconv.Quote\<close>, \<open>%02x\<close>, and \<open>%s\<close> of a duration, which is \<open>Duration.String\<close> of package
  \<open>time\<close>. Which characters above ASCII are printable is a table of the Unicode standard: a
  parameter \<open>isPrint\<close>.
\<close>

named_theorems text_simps \<open>texts without control characters\<close>

section \<open>Quoting\<close>

text \<open>An ASCII character between double quotes.\<close>

definition quote_ascii :: "char \<Rightarrow> string" where
  "quote_ascii c =
     (let n = of_char c :: nat in
      if c = quote_char \<or> c = backslash then [backslash, c]
      else if 0x20 \<le> n \<and> n < 0x7F then [c]
      else if n = 7 then [backslash, CHR ''a'']
      else if n = 8 then [backslash, CHR ''b'']
      else if n = 12 then [backslash, CHR ''f'']
      else if n = 10 then [backslash, CHR ''n'']
      else if n = 13 then [backslash, CHR ''r'']
      else if n = 9 then [backslash, CHR ''t'']
      else if n = 11 then [backslash, CHR ''v'']
      else [backslash, CHR ''x'', digit (n div 16), digit (n mod 16)])"

definition hex_digits :: "nat \<Rightarrow> nat \<Rightarrow> string" where
  "hex_digits k r = map (\<lambda>i. digit (r div 16 ^ i mod 16)) (rev [0..<k])"

definition escape_rune :: "nat \<Rightarrow> string" where
  "escape_rune r =
     (if r < 0x10000 then backslash # CHR ''u'' # hex_digits 4 r else backslash # CHR ''U'' # hex_digits 8 r)"

function quote_chars :: "(nat \<Rightarrow> bool) \<Rightarrow> string \<Rightarrow> string" where
  "quote_chars isPrint [] = ''''"
| "quote_chars isPrint (c # cs) =
     (if of_char c < (0x80 :: nat) then quote_ascii c @ quote_chars isPrint cs
      else
        let (r, w) = decodeRune (of_char c) (map of_char cs) in
        if r = runeError \<and> w = 1 then backslash # CHR ''x'' # hex_byte (of_char c) @ quote_chars isPrint cs
        else (if isPrint r then c # take (w - 1) cs else escape_rune r) @ quote_chars isPrint (drop (w - 1) cs))"
  by pat_completeness auto
termination
  by (relation "measure (length \<circ> snd)") auto

text \<open>The verb \<open>%q\<close>.\<close>

definition go_quote :: "(nat \<Rightarrow> bool) \<Rightarrow> string \<Rightarrow> string" where
  "go_quote isPrint s = quote_char # quote_chars isPrint s @ [quote_char]"

text \<open>\<open>string(r)\<close> of a rune: its UTF-8 bytes, those of U+FFFD if it is no code point.\<close>

definition encodeRune :: "nat \<Rightarrow> string" where
  "encodeRune r =
     (if r < 0x80 then [char_of r]
      else if r < 0x800 then [char_of (0xC0 + r div 64), char_of (0x80 + r mod 64)]
      else if 0x10FFFF < r \<or> 0xD800 \<le> r \<and> r < 0xE000 then [CHR 0xEF, CHR 0xBF, CHR 0xBD]
      else if r < 0x10000
      then [char_of (0xE0 + r div 4096), char_of (0x80 + r div 64 mod 64), char_of (0x80 + r mod 64)]
      else [char_of (0xF0 + r div 262144), char_of (0x80 + r div 4096 mod 64), char_of (0x80 + r div 64 mod 64),
            char_of (0x80 + r mod 64)])"

section \<open>Durations\<close>

text \<open>
  \<open>fmtFrac\<close>: \<open>prec\<close> digits of \<open>v\<close> as a fraction without its trailing zeros, in front of \<open>acc\<close>, and
  what remains of \<open>v\<close>.
\<close>

fun fmtFrac :: "nat \<Rightarrow> nat \<Rightarrow> bool \<Rightarrow> string \<Rightarrow> string \<times> nat" where
  "fmtFrac v 0 pr acc = (if pr then CHR ''.'' # acc else acc, v)"
| "fmtFrac v (Suc prec) pr acc =
     (let d = v mod 10; pr = (pr \<or> d \<noteq> 0)
      in fmtFrac (v div 10) prec pr (if pr then digit d # acc else acc))"

definition fmt_small :: "nat \<Rightarrow> string" where
  "fmt_small u =
     (let (prec, unit) =
        (if u < 1000 then (0, ''ns'')
         else if u < 1000000 then (3, [CHR 0xC2, CHR 0xB5, CHR ''s''])
         else (6, ''ms''));
          (acc, u) = fmtFrac u prec False unit
      in show_nat u @ acc)"

definition fmt_large :: "nat \<Rightarrow> string" where
  "fmt_large u =
     (let (acc, secs) = fmtFrac u 9 False ''s'';
          acc = show_nat (secs mod 60) @ acc;
          mins = secs div 60
      in if mins = 0 then acc
         else
           let acc = show_nat (mins mod 60) @ ''m'' @ acc;
               hours = mins div 60
           in if hours = 0 then acc else show_nat hours @ ''h'' @ acc)"

definition Duration_String :: "int \<Rightarrow> string" where
  "Duration_String d =
     (let u = nat \<bar>d\<bar> in
      if u = 0 then ''0s''
      else (if d < 0 then ''-'' else '''') @ (if u < nat Second then fmt_small u else fmt_large u))"

lemma fmtFrac_seconds: "fmtFrac (n * 1000000000) 9 False s = (s, n)"
proof -
  have "fmtFrac (n * 10 ^ k) k False s = (s, n)" for k
    by (induction k) simp_all
  from this [of 9] show ?thesis
    by simp
qed

text \<open>The durations the engine prints are whole seconds.\<close>

lemma Duration_String_seconds:
  assumes "0 < n"
  shows "Duration_String (int n * Second) =
    (if 3600 \<le> n then show_nat (n div 60 div 60) @ ''h'' else '''') @
    (if 60 \<le> n then show_nat (n div 60 mod 60) @ ''m'' else '''') @ show_nat (n mod 60) @ ''s''"
proof -
  have u: "nat \<bar>int n * Second\<bar> = n * 1000000000" "nat Second = 1000000000" "\<not> int n * Second < 0"
    by (simp_all add: Second_def nat_mult_distrib)
  have "n div 60 div 60 = n div 3600"
    using div_mult2_eq [of n 60 60] by simp
  then have h: "n div 60 = 0 \<longleftrightarrow> n < 60" "n div 60 div 60 = 0 \<longleftrightarrow> n < 3600"
    by (simp_all only: div_eq_0_iff) simp_all
  show ?thesis
    using assms unfolding Duration_String_def fmt_large_def Let_def u fmtFrac_seconds prod.case
    by (auto simp: h Second_def)
qed

section \<open>Quoted text is clean\<close>

text \<open>No control character, and well-formed UTF-8.\<close>

definition visible :: "char \<Rightarrow> bool" where
  "visible c \<longleftrightarrow> 0x20 \<le> (of_char c :: nat) \<and> of_char c \<noteq> (0x7F :: nat)"

definition clean :: "string \<Rightarrow> bool" where
  "clean s \<longleftrightarrow> list_all visible s \<and> valid_text s"

lemma decodeRune_prefix:
  assumes "decodeRune c bs = (r, w)" "\<not> (r = runeError \<and> w = 1)"
  shows "decodeRune c (bs @ xs) = (r, w)" "decodeRune c (take (w - 1) bs) = (r, w)"
proof -
  consider "c < 0x80" | "0x80 \<le> c" "c < 0xC2 \<or> 0xF4 < c" | "0xC2 \<le> c" "c < 0xE0" | "0xE0 \<le> c" "c < 0xF0"
    | "0xF0 \<le> c" "c \<le> 0xF4"
    by linarith
  then have "decodeRune c (bs @ xs) = (r, w) \<and> decodeRune c (take (w - 1) bs) = (r, w)"
  proof cases
    case 1
    then show ?thesis
      using assms by (simp add: decodeRune_ascii)
  next
    case 2
    then show ?thesis
      using assms by (auto simp: decodeRune_def)
  next
    case 3
    then obtain b1 rest where "bs = b1 # rest" "w = 2"
      using assms by (auto simp: decodeRune_def split: list.splits if_splits)
    then show ?thesis
      using assms 3 by (auto simp: decodeRune_def split: if_splits)
  next
    case 4
    then obtain b1 b2 rest where "bs = b1 # b2 # rest" "w = 3"
      using assms by (auto simp: decodeRune_def split: list.splits if_splits)
    then show ?thesis
      using assms 4 by (auto simp: decodeRune_def split: if_splits)
  next
    case 5
    then obtain b1 b2 b3 rest where "bs = b1 # b2 # b3 # rest" "w = 4"
      using assms by (auto simp: decodeRune_def split: list.splits if_splits)
    then show ?thesis
      using assms 5 by (auto simp: decodeRune_def split: if_splits)
  qed
  then show "decodeRune c (bs @ xs) = (r, w)" "decodeRune c (take (w - 1) bs) = (r, w)"
    by simp_all
qed

lemma valid_text_append: "valid_text s \<Longrightarrow> valid_text (s @ t) \<longleftrightarrow> valid_text t"
proof (induction s rule: valid_text.induct)
  case (2 c cs)
  obtain r w where d: "decodeRune (of_char c) (map of_char cs) = (r, w)"
    by fastforce
  with "2.prems" have ok: "\<not> (r = runeError \<and> w = 1)" "valid_text (drop (w - 1) cs)"
    by simp_all
  have "w - 1 \<le> length cs"
    using decodeRune_width_le [OF d] by simp
  moreover have "decodeRune (of_char c) (map of_char (cs @ t)) = (r, w)"
    using decodeRune_prefix(1) [OF d ok(1)] by simp
  ultimately show ?case
    using "2.IH" [OF d [symmetric] refl] ok by simp
qed simp

lemma clean_append: "clean s \<Longrightarrow> clean t \<Longrightarrow> clean (s @ t)"
  by (simp add: clean_def valid_text_append)

text \<open>Rules that decide whether a text put together from literals and clean parts is clean.\<close>

lemma clean_append_iff [text_simps]: "clean s \<Longrightarrow> clean (s @ t) \<longleftrightarrow> clean t"
  by (auto simp: clean_def valid_text_append)

lemma clean_Cons_iff [text_simps]:
  "0x20 \<le> (of_char c :: nat) \<Longrightarrow> of_char c < (0x7F :: nat) \<Longrightarrow> clean (c # s) \<longleftrightarrow> clean s"
  by (auto simp: clean_def visible_def decodeRune_ascii runeError_def)

lemma clean_Nil [text_simps]: "clean ''''"
  by (simp add: clean_def)

lemma clean_ascii: "list_all (\<lambda>c. 0x20 \<le> (of_char c :: nat) \<and> of_char c < (0x7F :: nat)) s \<Longrightarrow> clean s"
  by (auto simp: clean_def visible_def list_all_iff intro!: valid_text_ascii)

lemma digit_ascii: "n < 16 \<Longrightarrow> 0x20 \<le> (of_char (digit n) :: nat) \<and> of_char (digit n) < (0x7F :: nat)"
  by (simp add: digit_def)

lemma clean_show_nat [text_simps]: "clean (show_nat n)"
  using show_nat_is_digit [of _ n] by (intro clean_ascii) (fastforce simp: list_all_iff is_digit_def)

lemma clean_hex [text_simps]: "clean (hex_byte b)" "clean (hex_digits k r)"
proof -
  have "unat b < 256"
    using unsigned_less [of b] by simp
  then have "unat b div 16 < 16"
    by (simp add: less_mult_imp_div_less)
  then show "clean (hex_byte b)"
    using digit_ascii by (intro clean_ascii) (simp add: hex_byte_def)
  show "clean (hex_digits k r)"
    using digit_ascii by (intro clean_ascii) (simp add: hex_digits_def list_all_iff)
qed

lemma clean_quote_ascii:
  assumes "of_char c < (0x80 :: nat)"
  shows "clean (quote_ascii c)"
proof (rule clean_ascii)
  have "(of_char c :: nat) div 16 < 16"
    using assms by (simp add: less_mult_imp_div_less)
  then show "list_all (\<lambda>c. 0x20 \<le> (of_char c :: nat) \<and> of_char c < (0x7F :: nat)) (quote_ascii c)"
    using digit_ascii [of "of_char c div 16"] digit_ascii [of "of_char c mod 16"]
    by (auto simp: quote_ascii_def Let_def)
qed

lemma clean_rune:
  assumes d: "decodeRune (of_char c) (map of_char cs) = (r, w)" and ok: "\<not> (r = runeError \<and> w = 1)"
    and high: "0x80 \<le> (of_char c :: nat)"
  shows "clean (c # take (w - 1) cs)"
proof -
  have "decodeRune (of_char c) (map of_char (take (w - 1) cs)) = (r, w)"
    using decodeRune_prefix(2) [OF d ok] by (simp add: take_map)
  moreover have "\<forall>b \<in> set (take (w - 1) cs). 0x80 \<le> (of_char b :: nat)"
    using decodeRune_big [OF high d] by (auto simp: take_map)
  ultimately show ?thesis
    using ok high by (auto simp: clean_def visible_def list_all_iff)
qed

lemma clean_escape:
  "clean (escape_rune r)" "clean (backslash # CHR ''x'' # hex_byte b)"
  by (simp_all add: escape_rune_def text_simps)

lemma clean_quote_chars: "clean (quote_chars isPrint s)"
proof (induction isPrint s rule: quote_chars.induct)
  case (2 isPrint c cs)
  obtain r w where d: "decodeRune (of_char c) (map of_char cs) = (r, w)"
    by fastforce
  show ?case
  proof (cases "of_char c < (0x80 :: nat)")
    case True
    then show ?thesis
      using "2.IH"(1) clean_append [OF clean_quote_ascii] by simp
  next
    case False
    show ?thesis
    proof (cases "r = runeError \<and> w = 1")
      case True
      then show ?thesis
        using "2.IH"(2) [OF False d [symmetric] refl] clean_append [OF clean_escape(2)] False d by auto
    next
      case ok: False
      then show ?thesis
        using "2.IH"(3) [OF False d [symmetric] refl] clean_append [OF clean_rune [OF d ok]]
          clean_append [OF clean_escape(1) [of r]] False d by auto
    qed
  qed
qed (simp add: clean_def)

lemma clean_go_quote [text_simps]: "clean (go_quote isPrint s)"
  by (simp add: go_quote_def text_simps clean_quote_chars)

end
