(* ===== verification/Grim_Intrusion.thy ===== *)
theory Grim_Intrusion
  imports Grim_Prelude
begin

text \<open>
  \<open>engine/security/intrusion_detector.go\<close>: sliding-window counters and the anomalies they
  raise. A call reads the clock once in the model. The numbers and names that the source formats
  into the detail text are kept as a datatype, whose text and log line are in \<open>Grim_Messages\<close>; the
  callback goroutines a call starts are part of its result.
\<close>

section \<open>State\<close>

datatype AnomalyType = AnomalyRapidAuthFailures | AnomalyRapidEntryAccess | AnomalyDataExfil

datatype detail =
    D_AuthFailures nat
  | D_EntryReads nat string
  | D_Exfil string nat nat

record AnomalyEvent =
  a_Type :: AnomalyType
  a_Subject :: string
  a_Detail :: detail
  a_Timestamp :: time
  a_Severity :: string

record IntrusionDetector =
  authFailures :: "(string, time list) gomap"
  entryReads :: "(string, time list) gomap"
  ingestOps :: "(string, time list) gomap"
  deleteOps :: "(string, time list) gomap"
  windowSize :: int
  authFailThreshold :: nat
  readRateThreshold :: nat
  exfilThreshold :: nat
  onAnomaly :: bool
  history :: "AnomalyEvent list"
  historyMax :: nat

definition NewIntrusionDetector :: "bool \<Rightarrow> IntrusionDetector" where
  "NewIntrusionDetector cb =
     \<lparr>authFailures = [], entryReads = [], ingestOps = [], deleteOps = [], windowSize = 5 * Minute,
      authFailThreshold = 3, readRateThreshold = 50, exfilThreshold = 20, onAnomaly = cb, history = [],
      historyMax = 100\<rparr>"

section \<open>Operations\<close>

definition pruneWindow :: "time \<Rightarrow> IntrusionDetector \<Rightarrow> time list \<Rightarrow> time list" where
  "pruneWindow now d timestamps = dropWhile (\<lambda>t. t < now - windowSize d) timestamps"

definition emit :: "AnomalyEvent \<Rightarrow> IntrusionDetector \<Rightarrow> IntrusionDetector \<times> AnomalyEvent list" where
  "emit ev d =
     (let h = (if historyMax d \<le> length (history d) then tl (history d) else history d)
      in (d\<lparr>history := h @ [ev]\<rparr>, if onAnomaly d then [ev] else []))"

definition record_in :: "time \<Rightarrow> IntrusionDetector \<Rightarrow> (string, time list) gomap \<Rightarrow> string \<Rightarrow> (string, time list) gomap" where
  "record_in now d m subject =
     (let m = gomap_set m subject (pruneWindow now d (gomap_index m [] subject))
      in gomap_set m subject (gomap_index m [] subject @ [now]))"

definition RecordAuthFailure :: "time \<Rightarrow> string \<Rightarrow> IntrusionDetector \<Rightarrow> IntrusionDetector \<times> AnomalyEvent list" where
  "RecordAuthFailure now subject d =
     (let d = d\<lparr>authFailures := record_in now d (authFailures d) subject\<rparr>;
          total = sum_list (map (\<lambda>(s, timestamps). length timestamps) (authFailures d))
      in if authFailThreshold d \<le> total
         then emit \<lparr>a_Type = AnomalyRapidAuthFailures, a_Subject = subject, a_Detail = D_AuthFailures total,
                    a_Timestamp = now, a_Severity = ''MEDIUM''\<rparr> d
         else (d, []))"

definition RecordEntryRead :: "time \<Rightarrow> string \<Rightarrow> IntrusionDetector \<Rightarrow> IntrusionDetector \<times> AnomalyEvent list" where
  "RecordEntryRead now subject d =
     (let d = d\<lparr>entryReads := record_in now d (entryReads d) subject\<rparr>;
          count = length (gomap_index (entryReads d) [] subject)
      in if readRateThreshold d \<le> count
         then emit \<lparr>a_Type = AnomalyRapidEntryAccess, a_Subject = subject, a_Detail = D_EntryReads count subject,
                    a_Timestamp = now, a_Severity = ''HIGH''\<rparr> d
         else (d, []))"

definition checkExfilPattern :: "time \<Rightarrow> string \<Rightarrow> IntrusionDetector \<Rightarrow> IntrusionDetector \<times> AnomalyEvent list" where
  "checkExfilPattern now subject d =
     (let ingests = length (gomap_index (ingestOps d) [] subject);
          deletes = length (gomap_index (deleteOps d) [] subject);
          combined = ingests + deletes
      in if exfilThreshold d \<le> combined \<and> 0 < ingests \<and> 0 < deletes
         then emit \<lparr>a_Type = AnomalyDataExfil, a_Subject = subject, a_Detail = D_Exfil subject ingests deletes,
                    a_Timestamp = now, a_Severity = ''HIGH''\<rparr> d
         else (d, []))"

definition RecordIngestOp :: "time \<Rightarrow> string \<Rightarrow> IntrusionDetector \<Rightarrow> IntrusionDetector \<times> AnomalyEvent list" where
  "RecordIngestOp now subject d =
     checkExfilPattern now subject (d\<lparr>ingestOps := record_in now d (ingestOps d) subject\<rparr>)"

definition RecordDeleteOp :: "time \<Rightarrow> string \<Rightarrow> IntrusionDetector \<Rightarrow> IntrusionDetector \<times> AnomalyEvent list" where
  "RecordDeleteOp now subject d =
     checkExfilPattern now subject (d\<lparr>deleteOps := record_in now d (deleteOps d) subject\<rparr>)"

text \<open>The loop writes event \<open>i\<close> to index \<open>len - 1 - i\<close>.\<close>

definition History :: "IntrusionDetector \<Rightarrow> AnomalyEvent list" where
  "History d = map (\<lambda>j. history d ! (length (history d) - 1 - j)) [0..<length (history d)]"

section \<open>Sequences of calls\<close>

datatype intrusion_op = OpAuthFail time string | OpRead time string | OpIngest time string | OpDelete time string

fun intrusion_call :: "IntrusionDetector \<Rightarrow> intrusion_op \<Rightarrow> IntrusionDetector \<times> AnomalyEvent list" where
  "intrusion_call d (OpAuthFail now s) = RecordAuthFailure now s d"
| "intrusion_call d (OpRead now s) = RecordEntryRead now s d"
| "intrusion_call d (OpIngest now s) = RecordIngestOp now s d"
| "intrusion_call d (OpDelete now s) = RecordDeleteOp now s d"

definition intrusion_step :: "IntrusionDetector \<Rightarrow> intrusion_op \<Rightarrow> IntrusionDetector" where
  "intrusion_step d oper = fst (intrusion_call d oper)"

lemma record_in_simps [simp]:
  "map_of (record_in now d m s) =
     (map_of m)(s \<mapsto> dropWhile (\<lambda>t. t < now - windowSize d) (gomap_index m [] s) @ [now])"
  by (simp add: record_in_def Let_def gomap_index_def pruneWindow_def)

lemma emit_simps [simp]:
  "authFailures (fst (emit ev d)) = authFailures d" "entryReads (fst (emit ev d)) = entryReads d"
  "ingestOps (fst (emit ev d)) = ingestOps d" "deleteOps (fst (emit ev d)) = deleteOps d"
  "windowSize (fst (emit ev d)) = windowSize d" "readRateThreshold (fst (emit ev d)) = readRateThreshold d"
  "authFailThreshold (fst (emit ev d)) = authFailThreshold d" "exfilThreshold (fst (emit ev d)) = exfilThreshold d"
  "historyMax (fst (emit ev d)) = historyMax d" "onAnomaly (fst (emit ev d)) = onAnomaly d"
  by (simp_all add: emit_def Let_def)

lemmas intrusion_defs =
  RecordAuthFailure_def RecordEntryRead_def RecordIngestOp_def RecordDeleteOp_def checkExfilPattern_def
  Let_def

section \<open>The sliding windows\<close>

text \<open>
  Specification of the counters from the calls alone: which of the four counters a call is
  recorded in, the times of a subject's calls, and the part of them that lay in the five minutes
  before the subject's latest call of that kind.
\<close>

datatype counter = CAuth | CRead | CIngest | CDelete

fun recorded_as :: "intrusion_op \<Rightarrow> counter \<times> string \<times> time" where
  "recorded_as (OpAuthFail now s) = (CAuth, s, now)"
| "recorded_as (OpRead now s) = (CRead, s, now)"
| "recorded_as (OpIngest now s) = (CIngest, s, now)"
| "recorded_as (OpDelete now s) = (CDelete, s, now)"

definition times_of :: "counter \<Rightarrow> string \<Rightarrow> intrusion_op list \<Rightarrow> time list" where
  "times_of k s ops = concat (map (\<lambda>oper. case recorded_as oper of (k', s', now) \<Rightarrow> if k' = k \<and> s' = s then [now] else []) ops)"

definition subjects_of :: "counter \<Rightarrow> intrusion_op list \<Rightarrow> string set" where
  "subjects_of k ops = set (concat (map (\<lambda>oper. case recorded_as oper of (k', s, now) \<Rightarrow> if k' = k then [s] else []) ops))"

definition in_window :: "time \<Rightarrow> time list \<Rightarrow> time list" where
  "in_window now ts = filter (\<lambda>t. now - 5 * Minute \<le> t) ts"

definition held :: "counter \<Rightarrow> string \<Rightarrow> intrusion_op list \<Rightarrow> time list" where
  "held k s ops = in_window (last (times_of k s ops)) (times_of k s ops)"

fun counter_of :: "IntrusionDetector \<Rightarrow> counter \<Rightarrow> (string, time list) gomap" where
  "counter_of d CAuth = authFailures d"
| "counter_of d CRead = entryReads d"
| "counter_of d CIngest = ingestOps d"
| "counter_of d CDelete = deleteOps d"

text \<open>The clock does not run backwards between the calls of one kind for one subject.\<close>

definition monotone_clock :: "intrusion_op list \<Rightarrow> bool" where
  "monotone_clock ops \<longleftrightarrow> (\<forall>k s. sorted (times_of k s ops))"

lemma times_of_Nil [simp]: "times_of k s [] = []"
  by (simp add: times_of_def)

lemma times_of_snoc [simp]:
  "times_of k s (ops @ [oper]) =
     (case recorded_as oper of (k', s', now) \<Rightarrow> if k' = k \<and> s' = s then times_of k s ops @ [now] else times_of k s ops)"
  by (simp add: times_of_def split: prod.splits)

lemma subjects_of_snoc [simp]:
  "subjects_of k (ops @ [oper]) =
     (case recorded_as oper of (k', s', now) \<Rightarrow> if k' = k then insert s' (subjects_of k ops) else subjects_of k ops)"
  by (auto simp: subjects_of_def split: prod.splits)

lemma monotone_clock_snoc: "monotone_clock (ops @ [oper]) \<Longrightarrow> monotone_clock ops"
  by (cases "recorded_as oper") (auto simp: monotone_clock_def sorted_append split: if_splits)

lemma dropWhile_sorted: "sorted ts \<Longrightarrow> dropWhile (\<lambda>t. t < c) ts = filter (\<lambda>t. c \<le> t) (ts :: time list)"
proof (induction ts)
  case (Cons t ts)
  then have "\<forall>u \<in> set ts. t \<le> u" by simp
  then have "c \<le> t \<Longrightarrow> filter (\<lambda>t. c \<le> t) ts = ts"
    by (auto intro!: filter_True)
  with Cons show ?case by (auto simp: not_less)
qed simp

lemma window_step:
  assumes "sorted (ts @ [now])"
  shows "dropWhile (\<lambda>t. t < now - 5 * Minute) (in_window (last ts) ts) @ [now] = in_window now (ts @ [now])"
proof (cases "ts = []")
  case False
  then have "last ts \<le> now"
    using assms by (auto simp: sorted_append)
  then have "filter (\<lambda>t. now - 5 * Minute \<le> t) (in_window (last ts) ts) = filter (\<lambda>t. now - 5 * Minute \<le> t) ts"
    by (auto simp: in_window_def intro!: filter_cong)
  moreover have "sorted (in_window (last ts) ts)"
    using assms by (simp add: in_window_def sorted_append sorted_filter [where f = id, simplified])
  ultimately show ?thesis
    by (simp add: dropWhile_sorted) (simp add: in_window_def duration_defs)
qed (simp add: in_window_def duration_defs)

text \<open>One call changes one counter of one subject and no setting.\<close>

definition settings :: "IntrusionDetector \<Rightarrow> int \<times> nat \<times> nat \<times> nat \<times> nat \<times> bool" where
  "settings d =
     (windowSize d, authFailThreshold d, readRateThreshold d, exfilThreshold d, historyMax d, onAnomaly d)"

lemma counter_step:
  "counter_of (intrusion_step d oper) k =
     (case recorded_as oper of (k', s, now) \<Rightarrow> if k' = k then record_in now d (counter_of d k) s else counter_of d k)"
  by (cases oper; cases k) (simp_all add: intrusion_step_def intrusion_defs)

lemma settings_step: "settings (intrusion_step d oper) = settings d"
  by (cases oper) (simp_all add: settings_def intrusion_step_def intrusion_defs)

lemma settings_run: "settings (run intrusion_step d ops) = settings d"
  by (induction ops rule: rev_induct) (simp_all add: settings_step)

lemma settings_new: "settings (NewIntrusionDetector cb) = (5 * Minute, 3, 50, 20, 100, cb)"
  by (simp add: settings_def NewIntrusionDetector_def)

definition counters_ok :: "intrusion_op list \<Rightarrow> IntrusionDetector \<Rightarrow> bool" where
  "counters_ok ops d \<longleftrightarrow>
     (\<forall>k. gomap (counter_of d k) \<and> fst ` set (counter_of d k) = subjects_of k ops \<and>
        (\<forall>s. gomap_index (counter_of d k) [] s = held k s ops))"

lemma record_in_keys: "fst ` set (record_in now d m s) = insert s (fst ` set m)"
  by (simp add: record_in_def Let_def keys_gomap_set)

lemma gomap_record_in: "gomap m \<Longrightarrow> gomap (record_in now d m s)"
  by (simp add: record_in_def Let_def)

lemma counters_ok_step:
  assumes ok: "counters_ok ops d" and mono: "monotone_clock (ops @ [oper])" and win: "windowSize d = 5 * Minute"
  shows "counters_ok (ops @ [oper]) (intrusion_step d oper)"
proof -
  obtain k s now where r: "recorded_as oper = (k, s, now)"
    by (cases "recorded_as oper")
  have "sorted (times_of k s ops @ [now])"
    using mono by (auto simp: monotone_clock_def r dest!: spec [of _ k] spec [of _ s])
  from window_step [OF this] ok show ?thesis
    by (auto simp: counters_ok_def counter_step r held_def record_in_keys gomap_record_in gomap_index_def win)
qed

lemma counters_ok_run:
  "monotone_clock ops \<Longrightarrow> counters_ok ops (run intrusion_step (NewIntrusionDetector cb) ops)"
proof (induction ops rule: rev_induct)
  case Nil
  have "counter_of (NewIntrusionDetector cb) k = []" for k
    by (cases k) (simp_all add: NewIntrusionDetector_def)
  then show ?case
    by (simp add: counters_ok_def subjects_of_def held_def in_window_def gomap_index_def)
next
  case (snoc oper ops)
  let ?d = "run intrusion_step (NewIntrusionDetector cb) ops"
  have "windowSize ?d = 5 * Minute"
    using settings_run [of "NewIntrusionDetector cb" ops] unfolding settings_new by (simp add: settings_def)
  then show ?case
    using counters_ok_step [OF snoc.IH [OF monotone_clock_snoc [OF snoc.prems]] snoc.prems] by simp
qed

section \<open>The anomalies\<close>

text \<open>What a call reports, as a function of the counters it leaves.\<close>

definition exfil_report :: "(counter \<Rightarrow> string \<Rightarrow> nat) \<Rightarrow> time \<Rightarrow> string \<Rightarrow> AnomalyEvent list" where
  "exfil_report n now s =
     (if 20 \<le> n CIngest s + n CDelete s \<and> 0 < n CIngest s \<and> 0 < n CDelete s
      then [\<lparr>a_Type = AnomalyDataExfil, a_Subject = s, a_Detail = D_Exfil s (n CIngest s) (n CDelete s),
             a_Timestamp = now, a_Severity = ''HIGH''\<rparr>]
      else [])"

fun report :: "(counter \<Rightarrow> string \<Rightarrow> nat) \<Rightarrow> nat \<Rightarrow> intrusion_op \<Rightarrow> AnomalyEvent list" where
  "report n failures (OpAuthFail now s) =
     (if 3 \<le> failures
      then [\<lparr>a_Type = AnomalyRapidAuthFailures, a_Subject = s, a_Detail = D_AuthFailures failures,
             a_Timestamp = now, a_Severity = ''MEDIUM''\<rparr>]
      else [])"
| "report n failures (OpRead now s) =
     (if 50 \<le> n CRead s
      then [\<lparr>a_Type = AnomalyRapidEntryAccess, a_Subject = s, a_Detail = D_EntryReads (n CRead s) s,
             a_Timestamp = now, a_Severity = ''HIGH''\<rparr>]
      else [])"
| "report n failures (OpIngest now s) = exfil_report n now s"
| "report n failures (OpDelete now s) = exfil_report n now s"

lemma call_report:
  assumes "settings d = (w, 3, 50, 20, h, True)"
  shows "snd (intrusion_call d oper) =
    report (\<lambda>k s. length (gomap_index (counter_of (intrusion_step d oper) k) [] s))
      (sum_list (map (\<lambda>(s, timestamps). length timestamps) (authFailures (intrusion_step d oper)))) oper"
  using assms
  by (cases oper) (auto simp: settings_def intrusion_step_def intrusion_defs emit_def exfil_report_def)

lemma sum_gomap:
  assumes "gomap m"
  shows "sum_list (map (\<lambda>(s, ts). length ts) m) = (\<Sum>s \<in> fst ` set m. length (gomap_index m [] s))"
proof -
  have "map (\<lambda>(s, ts). length ts) m = map (\<lambda>s. length (gomap_index m [] s)) (map fst m)"
    using assms by (auto simp: gomap_index_def gomap_in_set)
  then show ?thesis
    using assms by (simp add: gomap_def sum_list_distinct_conv_sum_set del: map_map)
qed

text \<open>
  C37. Anomaly detection, exactly. When the clock does not run backwards between the calls of
  one kind for one subject, what a call reports is a function of the calls made so far. A read
  is reported if it is at least the fiftieth of its subject within five minutes. Ingests and
  deletes are reported if there is one of each and they are at least twenty together, an
  authentication failure if there are at least three of all subjects. The last two compare
  counters that are not of the same time: each counts the five minutes before the latest call of
  its own kind and subject, however long ago that was.
\<close>

theorem anomaly_reports:
  assumes "monotone_clock (ops @ [oper])"
  defines "n \<equiv> \<lambda>k s. length (held k s (ops @ [oper]))"
  shows "snd (intrusion_call (run intrusion_step (NewIntrusionDetector True) ops) oper) =
    report n (\<Sum>s \<in> subjects_of CAuth (ops @ [oper]). n CAuth s) oper"
proof -
  let ?d = "run intrusion_step (NewIntrusionDetector True) ops"
  have ok: "counters_ok (ops @ [oper]) (intrusion_step ?d oper)"
    using counters_ok_run [OF assms(1), of True] by simp
  have "settings ?d = (5 * Minute, 3, 50, 20, 100, True)"
    by (simp only: settings_run settings_new)
  from call_report [OF this] show ?thesis
    using ok sum_gomap [of "authFailures (intrusion_step ?d oper)"] unfolding counters_ok_def n_def
    by (simp add: counter_of.simps(1) [symmetric] del: counter_of.simps times_of_snoc subjects_of_snoc)
qed

theorem anomaly_reports_witness:
  "snd (intrusion_call (run intrusion_step (NewIntrusionDetector True)
     (map (\<lambda>t. OpIngest (int t) ''u'') [0..<19])) (OpDelete (24 * Hour) ''u'')) =
   [\<lparr>a_Type = AnomalyDataExfil, a_Subject = ''u'', a_Detail = D_Exfil ''u'' 19 1, a_Timestamp = 24 * Hour,
     a_Severity = ''HIGH''\<rparr>]"
proof -
  let ?ops = "map (\<lambda>t. OpIngest (int t) ''u'') [0..<19]"
  have times: "times_of k s ?ops = (if k = CIngest \<and> s = ''u'' then map int [0..<19] else [])" for k s
    by (auto simp: times_of_def comp_def concat_map_singleton)
  have "monotone_clock (?ops @ [OpDelete (24 * Hour) ''u''])"
    by (auto simp: monotone_clock_def times sorted_map sorted_wrt_map sorted_wrt_upt duration_defs)
  moreover have "in_window (last (map int [0..<19])) (map int [0..<19]) = map int [0..<19]"
    unfolding in_window_def by (rule filter_True) (auto simp: last_map duration_defs)
  ultimately show ?thesis
    using anomaly_reports [of ?ops "OpDelete (24 * Hour) ''u''"]
    by (simp add: held_def times exfil_report_def in_window_def duration_defs del: upt_rec_numeral)
qed

section \<open>Failures of other subjects\<close>

text \<open>
  Authentication failures outside the window are counted. The window of a subject is pruned
  only when that subject fails again, while the total runs over all subjects: after two failures
  of one subject, a first failure of any other subject at any later time, days later included,
  raises the anomaly for three failures in the window.
\<close>

theorem stale_failures_counted:
  assumes "s \<noteq> s'"
  shows "snd (RecordAuthFailure now s'
      (run intrusion_step (NewIntrusionDetector True) [OpAuthFail t s, OpAuthFail t s])) =
    [\<lparr>a_Type = AnomalyRapidAuthFailures, a_Subject = s', a_Detail = D_AuthFailures 3, a_Timestamp = now,
      a_Severity = ''MEDIUM''\<rparr>]"
  using assms
  by (simp add: intrusion_step_def intrusion_defs NewIntrusionDetector_def record_in_def pruneWindow_def
      gomap_index_def gomap_set_def emit_def duration_defs)

theorem stale_failures_counted_witness:
  "length (snd (RecordAuthFailure (1000 * Hour) ''b''
      (run intrusion_step (NewIntrusionDetector True) [OpAuthFail 0 ''a'', OpAuthFail 0 ''a'']))) = 1"
  using stale_failures_counted [of "''a''" "''b''" "1000 * Hour" 0] by simp

section \<open>The anomaly history\<close>

fun raised :: "IntrusionDetector \<Rightarrow> intrusion_op list \<Rightarrow> AnomalyEvent list" where
  "raised d [] = []"
| "raised d (oper # ops) = snd (intrusion_call d oper) @ raised (intrusion_step d oper) ops"

lemma raised_snoc: "raised d (ops @ [oper]) = raised d ops @ snd (intrusion_call (run intrusion_step d ops) oper)"
  by (induction ops arbitrary: d) auto

lemma history_call:
  assumes "onAnomaly d" "historyMax d = 100"
  shows "(snd (intrusion_call d oper) = [] \<and> history (intrusion_step d oper) = history d) \<or>
    (\<exists>ev. snd (intrusion_call d oper) = [ev] \<and>
      history (intrusion_step d oper) = (if 100 \<le> length (history d) then tl (history d) else history d) @ [ev])"
  using assms by (cases oper) (auto simp: intrusion_step_def intrusion_defs emit_def)

lemma history_run:
  "let d = run intrusion_step (NewIntrusionDetector True) ops; xs = raised (NewIntrusionDetector True) ops in
   onAnomaly d \<and> historyMax d = 100 \<and> history d = last_n 100 xs"
proof (induction ops rule: rev_induct)
  case (snoc oper ops)
  let ?d = "run intrusion_step (NewIntrusionDetector True) ops"
  from snoc have d: "onAnomaly ?d" "historyMax ?d = 100"
    "history ?d = last_n 100 (raised (NewIntrusionDetector True) ops)"
    by (simp_all add: Let_def)
  from history_call [OF d(1,2), of oper] show ?case
    using d settings_step [of ?d oper]
    by (auto simp: Let_def raised_snoc last_n_snoc settings_def)
qed (simp add: NewIntrusionDetector_def last_n_def)

lemma History_rev: "History d = rev (history d)"
  by (rule nth_equalityI) (auto simp: History_def rev_nth)

text \<open>
  The history holds the most recent hundred anomalies, newest first, for any sequence of
  recorded operations and any clock readings.
\<close>

theorem history_newest_first:
  "History (run intrusion_step (NewIntrusionDetector True) ops) =
     take 100 (rev (raised (NewIntrusionDetector True) ops))"
  using history_run [of ops] by (simp add: Let_def History_rev rev_last_n)

end
