(* ===== verification/Grim_Messages.thy ===== *)
theory Grim_Messages
  imports Grim_Format Grim_GQL_Validator Grim_GQL_Result Grim_Intrusion Grim_Kernel_Registry
begin

text \<open>
  The texts of the errors that carry data of a client: those of \<open>engine/gql\<close> (\<open>types.go\<close>,
  \<open>frame.go\<close>, \<open>validator.go\<close>), of the anomalies of \<open>security/intrusion_detector.go\<close>, and of the
  registration of modules. The other theories keep the formatted values as arguments of an error;
  here they are formatted as the source does.
\<close>

section \<open>Decoding\<close>

fun field_error_text :: "field_error \<Rightarrow> string" where
  "field_error_text FieldTooShort = ''gql: field too short for length prefix''"
| "field_error_text (FieldTruncated need have) =
     ''gql: field truncated: need '' @ show_nat need @ '' bytes, have '' @ show_nat have"

text \<open>A panic has no error text; the decoder never panics.\<close>

fun decode_error_text :: "decode_error \<Rightarrow> string" where
  "decode_error_text GoPanic = ''''"
| "decode_error_text PayloadTooShort = ''gql: payload too short for field_count''"
| "decode_error_text (FieldCountExceeds n) =
     ''gql: field_count '' @ show_nat n @ '' exceeds max '' @ show_nat MaxFieldsCount"
| "decode_error_text (FieldError name e) = ''gql: '' @ name @ '': '' @ field_error_text e"
| "decode_error_text (TruncatedAtField i) = ''gql: truncated at field '' @ show_nat i"
| "decode_error_text (FieldKeyError i e) = ''gql: field['' @ show_nat i @ ''].key: '' @ field_error_text e"
| "decode_error_text (TruncatedAtFieldValue i) = ''gql: truncated at field['' @ show_nat i @ ''].value''"
| "decode_error_text (FieldValueError i e) = ''gql: field['' @ show_nat i @ ''].value: '' @ field_error_text e"
| "decode_error_text TruncatedAtLimit = ''gql: truncated at limit''"
| "decode_error_text TruncatedAtOffset = ''gql: truncated at offset''"

fun frame_error_text :: "frame_error \<Rightarrow> string" where
  "frame_error_text (FrameTooShort n) =
     ''gql: frame too short: '' @ show_nat n @ '' bytes (min '' @ show_nat FrameHeaderSize @ '')''"
| "frame_error_text (UnsupportedVersion v) =
     ''gql: unsupported version '' @ show_nat (unat v) @ '' (expected '' @ show_nat (unat Version) @ '')''"
| "frame_error_text (UnknownOpcode b) = ''gql: unknown opcode 0x'' @ hex_byte b"
| "frame_error_text (PayloadSizeExceeds n) =
     ''gql: payload size '' @ show_nat n @ '' exceeds max '' @ show_nat MaxPayloadSize"
| "frame_error_text (FrameLengthMismatch have says) =
     ''gql: frame length mismatch: have '' @ show_nat have @ '' bytes, header says '' @ show_nat says"

section \<open>Validation\<close>

definition exceeds :: "nat \<Rightarrow> nat \<Rightarrow> string" where
  "exceeds n m = show_nat n @ '' > '' @ show_nat m"

fun reason_text :: "reason \<Rightarrow> string" where
  "reason_text (R_UnsupportedVersion v) =
     ''unsupported version '' @ show_nat (unat v) @ '' (expected '' @ show_nat (unat Version) @ '')''"
| "reason_text (R_UnknownOpcode b) = ''unknown opcode 0x'' @ hex_byte b"
| "reason_text (R_ExceedsMaximum n m) = ''exceeds maximum''"
| "reason_text R_EmptyPayload = ''empty payload''"
| "reason_text R_ZeroLength = ''zero-length''"
| "reason_text R_OpcodeNotAllowed = ''opcode not allowed for query validation''"
| "reason_text (R_DecodeFailed e) = ''decode failed''"
| "reason_text R_RequiredFieldEmpty = ''required field is empty''"
| "reason_text (R_ExceedsMaximumLength n m) = ''exceeds maximum length''"
| "reason_text (R_InvalidIdentifierChar i c) = ''invalid character in identifier''"
| "reason_text (R_ControlChar i c) = ''control character in text field''"
| "reason_text (R_DelChar i) = ''DEL character in text field''"
| "reason_text (R_TooManyFields n m) = ''too many fields''"
| "reason_text (R_RequiresRead oper) = ''opcode mismatch''"
| "reason_text (R_RequiresWrite oper) = ''opcode mismatch''"

text \<open>The field \<open>Details\<close>, empty where the source does not set it.\<close>

fun details_text :: "(nat \<Rightarrow> bool) \<Rightarrow> reason \<Rightarrow> string" where
  "details_text isPrint (R_ExceedsMaximum n m) = exceeds n m"
| "details_text isPrint (R_DecodeFailed e) = decode_error_text e"
| "details_text isPrint (R_ExceedsMaximumLength n m) = exceeds n m"
| "details_text isPrint (R_InvalidIdentifierChar i c) =
     ''position '' @ show_nat i @ '': character '' @ go_quote isPrint (encodeRune c) @ '' not allowed '' @ em_dash @
     '' only alphanumeric, _, -, . permitted''"
| "details_text isPrint (R_ControlChar i c) = ''position '' @ show_nat i @ '': 0x'' @ hex_byte (word_of_nat c)"
| "details_text isPrint (R_DelChar i) = ''position '' @ show_nat i"
| "details_text isPrint (R_TooManyFields n m) = exceeds n m"
| "details_text isPrint (R_RequiresRead oper) =
     ''opcode QUERY requires a read operation, got '' @ go_quote isPrint oper"
| "details_text isPrint (R_RequiresWrite oper) =
     ''opcode MUTATE requires a write operation, got '' @ go_quote isPrint oper"
| "details_text isPrint _ = ''''"

definition SyntacticError_Error :: "(nat \<Rightarrow> bool) \<Rightarrow> string \<Rightarrow> reason \<Rightarrow> string" where
  "SyntacticError_Error isPrint field reason =
     (if details_text isPrint reason \<noteq> ''''
      then ''gql: syntactic error in '' @ go_quote isPrint field @ '': '' @ reason_text reason @
           '' ('' @ details_text isPrint reason @ '')''
      else ''gql: syntactic error in '' @ go_quote isPrint field @ '': '' @ reason_text reason)"

fun acl_reason_text :: "(nat \<Rightarrow> bool) \<Rightarrow> acl_reason \<Rightarrow> string" where
  "acl_reason_text isPrint A_NoActiveSession = ''no active session''"
| "acl_reason_text isPrint A_VaultLocked = ''vault locked''"
| "acl_reason_text isPrint A_NoActiveHandle = ''no active MVK handle''"
| "acl_reason_text isPrint A_RequiresCredentials = ''write operation requires credentials''"
| "acl_reason_text isPrint (A_NamespaceMismatch ns user) =
     ''namespace '' @ go_quote isPrint ns @ '' does not match session user '' @ go_quote isPrint user"

definition SemanticError_Error :: "(nat \<Rightarrow> bool) \<Rightarrow> Operation \<Rightarrow> acl_reason \<Rightarrow> string" where
  "SemanticError_Error isPrint oper reason =
     ''gql: semantic error for '' @ go_quote isPrint oper @ '': '' @ acl_reason_text isPrint reason"

fun validation_error_text :: "(nat \<Rightarrow> bool) \<Rightarrow> validation_error \<Rightarrow> string" where
  "validation_error_text isPrint (SyntacticError field reason) = SyntacticError_Error isPrint field reason"
| "validation_error_text isPrint (SemanticError oper reason) = SemanticError_Error isPrint oper reason"

section \<open>Anomalies\<close>

fun AnomalyType_string :: "AnomalyType \<Rightarrow> string" where
  "AnomalyType_string AnomalyRapidAuthFailures = ''RAPID_AUTH_FAILURES''"
| "AnomalyType_string AnomalyRapidEntryAccess = ''RAPID_ENTRY_ACCESS''"
| "AnomalyType_string AnomalyDataExfil = ''POSSIBLE_DATA_EXFIL''"

text \<open>The field \<open>Detail\<close>, with the window of the detector.\<close>

fun detail_text :: "(nat \<Rightarrow> bool) \<Rightarrow> int \<Rightarrow> detail \<Rightarrow> string" where
  "detail_text isPrint win (D_AuthFailures count) =
     show_nat count @ '' auth failures across all subjects in '' @ Duration_String win @ '' window''"
| "detail_text isPrint win (D_EntryReads count subject) =
     show_nat count @ '' entry reads for subject='' @ go_quote isPrint subject @ '' in '' @ Duration_String win @
     '' window '' @ em_dash @ '' possible vault scan''"
| "detail_text isPrint win (D_Exfil subject ingests deletes) =
     ''subject='' @ go_quote isPrint subject @ '': '' @ show_nat ingests @ '' ingest + '' @ show_nat deletes @
     '' delete ops in '' @ Duration_String win @ '' window '' @ em_dash @ '' possible data staging''"

definition anomaly_log :: "(nat \<Rightarrow> bool) \<Rightarrow> int \<Rightarrow> AnomalyEvent \<Rightarrow> string" where
  "anomaly_log isPrint win ev =
     ''[IntrusionDetector] ANOMALY type='' @ AnomalyType_string (a_Type ev) @ '' severity='' @ a_Severity ev @
     '' subject='' @ go_quote isPrint (a_Subject ev) @ '' detail='' @
     go_quote isPrint (detail_text isPrint win (a_Detail ev))"

section \<open>Modules\<close>

definition Register_text :: "(nat \<Rightarrow> bool) \<Rightarrow> string \<Rightarrow> string" where
  "Register_text isPrint mid = ''module '' @ go_quote isPrint mid @ '' already registered''"

definition Add_text :: "(nat \<Rightarrow> bool) \<Rightarrow> string \<times> string \<Rightarrow> string" where
  "Add_text isPrint err = ''register '' @ fst err @ '': '' @ Register_text isPrint (snd err)"

definition StartAll_text :: "string \<times> go_error \<Rightarrow> string" where
  "StartAll_text err = ''start '' @ fst err @ '': '' @ error_text (snd err)"

section \<open>The texts are clean\<close>

lemma clean_em_dash [text_simps]: "clean (CHR 0xE2 # CHR 0x80 # CHR 0x94 # s) \<longleftrightarrow> clean s"
proof -
  have "decodeRune (of_char (CHR 0xE2)) (map of_char [CHR 0x80, CHR 0x94]) = (0x2014, 3)"
    by (simp add: decodeRune_def cont_def)
  then have "clean em_dash"
    by (simp add: clean_def visible_def runeError_def)
  then show ?thesis
    using clean_append_iff [of em_dash s] by simp
qed

lemma clean_exceeds [text_simps]: "clean (exceeds n m)"
  by (simp add: exceeds_def text_simps)

lemma clean_field_error [text_simps]: "clean (field_error_text e)"
  by (cases e) (simp_all add: text_simps)

text \<open>The only names that occur in a decoding error are those of the source.\<close>

definition fieldNames :: "string list" where
  "fieldNames = [''operation'', ''namespace'', ''entry_id'', ''category'', ''title'', ''credentials'']"

fun known_field :: "decode_error \<Rightarrow> bool" where
  "known_field (FieldError name e) \<longleftrightarrow> name \<in> set fieldNames"
| "known_field _ \<longleftrightarrow> True"

lemma readField_known: "readField name p off = Inl e \<Longrightarrow> name \<in> set fieldNames \<Longrightarrow> known_field e"
  by (auto simp: readField_def split: option.splits sum.splits)

lemma readU32_known: "readU32 e p off = Inl e' \<Longrightarrow> known_field e \<Longrightarrow> known_field e'"
  by (auto simp: readU32_def split: option.splits if_splits)

lemma decodeFields_known: "decodeFields i n p off acc = Inl e \<Longrightarrow> known_field e"
  by (induction i n p off acc rule: decodeFields.induct) (auto simp: Let_def split: if_splits sum.splits)

lemma readCredentials_known: "readCredentials p off = Inl e \<Longrightarrow> known_field e"
  by (auto simp: readCredentials_def bindE_eq_Inl fieldNames_def dest!: readField_known split: if_splits)

lemma DecodeQuery_known: "DecodeQuery p op = Inl e \<Longrightarrow> known_field e"
  by (auto simp: DecodeQuery_def Let_def bindE_eq_Inl fieldNames_def split: if_splits
      dest!: readField_known readU32_known decodeFields_known readCredentials_known)

lemma clean_field_name: "name \<in> set fieldNames \<Longrightarrow> clean name"
  by (auto simp: fieldNames_def text_simps)

lemma clean_decode_error: "known_field e \<Longrightarrow> clean (decode_error_text e)"
  by (cases e) (simp_all add: text_simps clean_field_name)

lemma clean_Duration: "0 < n \<Longrightarrow> clean (Duration_String (int n * Second))"
  by (simp add: Duration_String_seconds text_simps)

lemma clean_SemanticError: "clean (SemanticError_Error isPrint oper reason)"
  by (cases reason) (simp_all add: SemanticError_Error_def text_simps)

lemma clean_reason: "clean (reason_text reason)"
  by (cases reason) (simp_all add: text_simps)

lemma clean_details:
  "(\<And>e. reason = R_DecodeFailed e \<Longrightarrow> known_field e) \<Longrightarrow> clean (details_text isPrint reason)"
  by (cases reason) (simp_all add: text_simps clean_decode_error)

lemma clean_SyntacticError:
  "(\<And>e. reason = R_DecodeFailed e \<Longrightarrow> known_field e) \<Longrightarrow> clean (SyntacticError_Error isPrint field reason)"
  using clean_details [of reason isPrint] clean_reason [of reason]
  by (simp add: SyntacticError_Error_def text_simps)

lemma err_then_Some: "err_then a b = Some e \<longleftrightarrow> a = Some e \<or> a = None \<and> b = Some e"
  by (cases a) auto

lemma validateQuery_reason: "validateQuery q opcode \<noteq> Some (SyntacticError field (R_DecodeFailed e))"
proof -
  have "validateFields kvs \<noteq> Some (SyntacticError field (R_DecodeFailed e))" for kvs
    by (induction kvs)
      (auto simp: validateStringField_def validateIdentifier_def validatePrintable_def err_then_Some split: option.splits if_splits)
  then show ?thesis
    by (auto simp: validateQuery_def validateStringField_def validateIdentifier_def validatePrintable_def err_then_Some
        split: option.splits if_splits)
qed


lemma ValidateFrame_clean:
  assumes "ValidateFrame f session = Inl e"
  shows "clean (validation_error_text isPrint e)"
proof (cases e)
  case (SyntacticError field reason)
  have "known_field e'" if "reason = R_DecodeFailed e'" for e'
    using assms validateQuery_reason DecodeQuery_known that SyntacticError
    by (auto simp: ValidateFrame_def validatePayloadBytes_def validateACL_def Let_def
        split: if_splits option.splits sum.splits)
  then show ?thesis
    using clean_SyntacticError by (simp add: SyntacticError)
qed (simp add: clean_SemanticError)

lemma clean_frame_error: "clean (frame_error_text e)"
  by (cases e) (simp_all add: text_simps)

text \<open>The name of a module is quoted when it is registered twice, and printed as it is by the registry.\<close>

lemma clean_registration:
  "clean (Register_text isPrint mid)" "clean mid \<Longrightarrow> clean (Add_text isPrint (mid, mid))"
  by (simp_all add: Register_text_def Add_text_def text_simps)

section \<open>Properties\<close>

text \<open>A client that reads the error frame finds the text.\<close>

definition arrives :: "int \<Rightarrow> string \<Rightarrow> bool" where
  "arrives code msg \<longleftrightarrow>
     read_result (f_Payload (NewErrorFrame code msg)) =
       Some \<lparr>r_RequestID = '''', r_Success = False, r_Entries = [], r_TotalCount = 0, r_ErrorCode = code, r_ErrorMsg = msg\<rparr>"

lemma clean_arrives: "clean msg \<Longrightarrow> arrives code msg"
  by (simp add: arrives_def clean_def error_frame_result)

text \<open>
  C19. A refusal can be logged and sent. Whatever bytes a client sends, if the frame is not decoded or
  not accepted, the text of the error it is refused with has no control character and is
  well-formed UTF-8, so a client that reads the error frame made from it finds exactly that text.
\<close>

theorem refusal_readable:
  "(case DecodeFrame data of
      Inl e \<Rightarrow> clean (frame_error_text e) \<and> arrives code (frame_error_text e)
    | Inr f \<Rightarrow>
        (case ValidateFrame f session of
           Inl e \<Rightarrow> clean (validation_error_text isPrint e) \<and> arrives code (validation_error_text isPrint e)
         | Inr _ \<Rightarrow> True))"
  using ValidateFrame_clean [of _ session _ isPrint] clean_frame_error clean_arrives
  by (auto split: sum.splits)

lemma clean_detail: "clean (detail_text isPrint (5 * Minute) det)"
proof -
  have "clean (Duration_String (5 * Minute))"
    using clean_Duration [of 300] by (simp add: duration_defs)
  then show ?thesis
    by (cases det) (simp_all add: text_simps)
qed

lemma clean_anomaly_log:
  "list_all (\<lambda>ev. clean (anomaly_log isPrint win ev)) (report n failures oper)"
  by (cases oper) (simp_all add: exfil_report_def anomaly_log_def text_simps)

text \<open>
  No subject can forge a line of the anomaly log: every line that a call writes, whatever the
  subject's name, is one line of printable UTF-8, and so is the detail the callback receives.
\<close>

theorem anomaly_log_one_line:
  "list_all (\<lambda>ev. clean (anomaly_log isPrint (5 * Minute) ev) \<and> clean (detail_text isPrint (5 * Minute) (a_Detail ev)))
     (snd (intrusion_call (run intrusion_step (NewIntrusionDetector True) ops) oper))"
proof -
  let ?d = "run intrusion_step (NewIntrusionDetector True) ops"
  have "settings ?d = (5 * Minute, 3, 50, 20, 100, True)"
    by (simp only: settings_run settings_new)
  from call_report [OF this, of oper] show ?thesis
    using clean_anomaly_log [of isPrint "5 * Minute"] clean_detail [of isPrint] by (simp add: list_all_iff)
qed

end
