(* ===== verification/Grim_Session.thy ===== *)
theory Grim_Session
  imports Grim_Kernel_Event
begin

text \<open>
  \<open>engine/security/session.go\<close>: the unlock state of the vault and its inactivity timer. The
  methods are functions that also return the events they dispatch. The running session is a step
  relation: what a method does under the mutex is one step, its announcement afterwards another,
  and a timer that has expired first starts its callback, which locks the session in a later
  step.
\<close>

section \<open>State\<close>

text \<open>The timer pointer: nil, a timer that is stopped or has fired, or one that is armed.\<close>

datatype timer = NoTimer | Stopped | Armed time

record SessionContext =
  active :: bool
  mvkHandle :: string
  unlockedAt :: time
  dispatcher :: bool
  autoLockMinutes :: int
  autoLockTimer :: timer
  lastActivity :: time

definition NewSessionContext :: SessionContext where
  "NewSessionContext =
     \<lparr>active = False, mvkHandle = '''', unlockedAt = zeroTime, dispatcher = False, autoLockMinutes = 15,
      autoLockTimer = NoTimer, lastActivity = zeroTime\<rparr>"

section \<open>Methods\<close>

definition SetAutoLockMinutes :: "int \<Rightarrow> SessionContext \<Rightarrow> SessionContext" where
  "SetAutoLockMinutes minutes s = s\<lparr>autoLockMinutes := minutes\<rparr>"

text \<open>Arming a timer at \<open>now\<close> for a duration; a duration that is not positive expires at once.\<close>

definition arm :: "time \<Rightarrow> int \<Rightarrow> timer" where
  "arm now d = Armed (now + max 0 d)"

definition ResetActivity :: "time \<Rightarrow> SessionContext \<Rightarrow> SessionContext" where
  "ResetActivity now s =
     (if autoLockTimer s \<noteq> NoTimer
      then s\<lparr>autoLockTimer := arm now (wrap64 (autoLockMinutes s * Minute))\<rparr> else s)"

definition SetDispatcher :: "bool \<Rightarrow> SessionContext \<Rightarrow> SessionContext" where
  "SetDispatcher d s = s\<lparr>dispatcher := d\<rparr>"

definition stop_timer :: "timer \<Rightarrow> timer" where
  "stop_timer t = (if t \<noteq> NoTimer then Stopped else NoTimer)"

text \<open>The JSON of the payload: the keys of the map in sorted order.\<close>

definition ready_payload :: "time \<Rightarrow> byte list" where
  "ready_payload t =
     bytes_of (''{\"unlocked\":true,\"unlocked_at\":'' @ show_int (t div Second) @ ''}'')"

text \<open>
  \<open>Unlock\<close> changes the session under the mutex, releases it, and then announces the change:
  the announcement reads the dispatcher and the unlock time again, without the mutex. The two
  parts are separate steps below; \<open>Unlock\<close> is the call that nothing interrupts.
\<close>

definition Unlock_locked :: "time \<Rightarrow> string \<Rightarrow> SessionContext \<Rightarrow> SessionContext" where
  "Unlock_locked now handle s =
     (let s = s\<lparr>active := True, mvkHandle := handle, unlockedAt := now, lastActivity := now\<rparr>;
          s = s\<lparr>autoLockTimer := stop_timer (autoLockTimer s)\<rparr>
      in if autoLockMinutes s > 0
         then s\<lparr>autoLockTimer := arm now (wrap64 (autoLockMinutes s * Minute))\<rparr> else s)"

definition Unlock_announce :: "time \<Rightarrow> byte list \<Rightarrow> SessionContext \<Rightarrow> Event list" where
  "Unlock_announce now rnd s =
     (if dispatcher s then [NewEvent now rnd ''session'' EvAuthReady (ready_payload (unlockedAt s))] else [])"

definition Unlock :: "time \<Rightarrow> byte list \<Rightarrow> string \<Rightarrow> SessionContext \<Rightarrow> SessionContext \<times> Event list" where
  "Unlock now rnd handle s = (let s = Unlock_locked now handle s in (s, Unlock_announce now rnd s))"

text \<open>\<open>Lock\<close> has the same shape; it announces only if the session was active.\<close>

definition Lock_locked :: "SessionContext \<Rightarrow> SessionContext \<times> bool" where
  "Lock_locked s =
     (let wasActive = active s
      in (s\<lparr>active := False, mvkHandle := '''', unlockedAt := zeroTime, lastActivity := zeroTime,
            autoLockTimer := stop_timer (autoLockTimer s)\<rparr>, wasActive))"

definition Lock_announce :: "time \<Rightarrow> byte list \<Rightarrow> SessionContext \<Rightarrow> Event list" where
  "Lock_announce now rnd s =
     (if dispatcher s
      then [NewEvent now rnd ''session'' EvAuthLogout (bytes_of ''{\"reason\":\"session_locked\"}'')]
      else [])"

definition Lock :: "time \<Rightarrow> byte list \<Rightarrow> SessionContext \<Rightarrow> SessionContext \<times> Event list" where
  "Lock now rnd s =
     (let (s, wasActive) = Lock_locked s in (s, if wasActive then Lock_announce now rnd s else []))"

definition IsUnlocked :: "SessionContext \<Rightarrow> bool" where
  "IsUnlocked s = active s"

definition MVKHandle :: "SessionContext \<Rightarrow> string" where
  "MVKHandle s = mvkHandle s"

definition ActiveHandle :: "SessionContext \<Rightarrow> string" where
  "ActiveHandle s = (if \<not> active s then '''' else mvkHandle s)"

definition RequireUnlocked :: "SessionContext \<Rightarrow> string option" where
  "RequireUnlocked s = (if \<not> IsUnlocked s then Some ''vault locked: no active session'' else None)"

text \<open>The age is given in nanoseconds.\<close>

record health =
  hl_active :: bool
  hl_mvk_handle :: bool
  hl_unlocked_at :: int
  hl_age :: int

definition Health :: "time \<Rightarrow> SessionContext \<Rightarrow> health" where
  "Health now s =
     \<lparr>hl_active = active s, hl_mvk_handle = (mvkHandle s \<noteq> ''''), hl_unlocked_at = unlockedAt s div Second,
      hl_age = time_sub now (unlockedAt s)\<rparr>"

section \<open>The session and its timer as a state machine\<close>

text \<open>
  A state of the running session: the context, the timer callbacks that have been started and
  have not yet taken the mutex, the calls that have released the mutex and have not yet
  announced their change, and the events dispatched so far.
\<close>

datatype announcement = AnnounceReady | AnnounceLogout

record session_sys =
  ses :: SessionContext
  callbacks :: nat
  announcing :: "announcement list"
  emitted :: "Event list"

fun announce :: "announcement \<Rightarrow> time \<Rightarrow> byte list \<Rightarrow> SessionContext \<Rightarrow> Event list" where
  "announce AnnounceReady now rnd s = Unlock_announce now rnd s"
| "announce AnnounceLogout now rnd s = Lock_announce now rnd s"

definition logout_due :: "bool \<Rightarrow> announcement list" where
  "logout_due wasActive = (if wasActive then [AnnounceLogout] else [])"

definition drop_at :: "nat \<Rightarrow> 'a list \<Rightarrow> 'a list" where
  "drop_at i xs = take i xs @ drop (Suc i) xs"

datatype session_label =
    LUnlock time string
  | LLock
  | LActivity time
  | LMinutes int
  | LDispatcher bool
  | LExpire time
  | LCallback
  | LAnnounce nat time "byte list"

inductive session_step :: "session_sys \<Rightarrow> session_label \<Rightarrow> session_sys \<Rightarrow> bool" where
  unlock: "session_step \<sigma> (LUnlock now h)
    (\<sigma>\<lparr>ses := Unlock_locked now h (ses \<sigma>), announcing := announcing \<sigma> @ [AnnounceReady]\<rparr>)"
| lock: "Lock_locked (ses \<sigma>) = (s, was) \<Longrightarrow>
    session_step \<sigma> LLock (\<sigma>\<lparr>ses := s, announcing := announcing \<sigma> @ logout_due was\<rparr>)"
| activity: "session_step \<sigma> (LActivity now) (\<sigma>\<lparr>ses := ResetActivity now (ses \<sigma>)\<rparr>)"
| minutes: "session_step \<sigma> (LMinutes m) (\<sigma>\<lparr>ses := SetAutoLockMinutes m (ses \<sigma>)\<rparr>)"
| dispatch: "session_step \<sigma> (LDispatcher d) (\<sigma>\<lparr>ses := SetDispatcher d (ses \<sigma>)\<rparr>)"
| expire: "autoLockTimer (ses \<sigma>) = Armed t \<Longrightarrow> t \<le> now \<Longrightarrow>
    session_step \<sigma> (LExpire now)
      (\<sigma>\<lparr>ses := (ses \<sigma>)\<lparr>autoLockTimer := Stopped\<rparr>, callbacks := callbacks \<sigma> + 1\<rparr>)"
| callback: "callbacks \<sigma> = Suc n \<Longrightarrow> Lock_locked (ses \<sigma>) = (s, was) \<Longrightarrow>
    session_step \<sigma> LCallback (\<sigma>\<lparr>ses := s, callbacks := n, announcing := announcing \<sigma> @ logout_due was\<rparr>)"
| announce: "i < length (announcing \<sigma>) \<Longrightarrow>
    session_step \<sigma> (LAnnounce i now rnd)
      (\<sigma>\<lparr>announcing := drop_at i (announcing \<sigma>),
         emitted := emitted \<sigma> @ announce (announcing \<sigma> ! i) now rnd (ses \<sigma>)\<rparr>)"

inductive_simps session_step_simps:
  "session_step \<sigma> (LUnlock now h) \<sigma>'" "session_step \<sigma> LLock \<sigma>'"
  "session_step \<sigma> (LActivity now) \<sigma>'" "session_step \<sigma> (LMinutes m) \<sigma>'"
  "session_step \<sigma> (LDispatcher d) \<sigma>'" "session_step \<sigma> (LExpire now) \<sigma>'"
  "session_step \<sigma> LCallback \<sigma>'" "session_step \<sigma> (LAnnounce i now rnd) \<sigma>'"

abbreviation session_run :: "session_sys \<Rightarrow> session_label list \<Rightarrow> session_sys \<Rightarrow> bool" where
  "session_run \<equiv> trace session_step"

definition initial_sys :: session_sys where
  "initial_sys = \<lparr>ses = NewSessionContext, callbacks = 0, announcing = [], emitted = []\<rparr>"

definition session_ok :: "SessionContext \<Rightarrow> bool" where
  "session_ok s \<longleftrightarrow> active s \<or> mvkHandle s = '''' \<and> unlockedAt s = zeroTime \<and> lastActivity s = zeroTime"

lemmas session_defs =
  Unlock_def Unlock_locked_def Unlock_announce_def Lock_def Lock_locked_def Lock_announce_def
  ResetActivity_def SetAutoLockMinutes_def SetDispatcher_def Let_def

lemma session_ok_step: "session_step \<sigma> l \<sigma>' \<Longrightarrow> session_ok (ses \<sigma>) \<Longrightarrow> session_ok (ses \<sigma>')"
  by (induction rule: session_step.induct) (auto simp: session_defs session_ok_def split: if_splits)

interpretation session_steps: step_system session_step "\<lambda>_. True" "\<lambda>\<sigma>. session_ok (ses \<sigma>)"
  by unfold_locales (rule session_ok_step)

lemma session_ok_run: "session_run \<sigma>0 ls \<sigma> \<Longrightarrow> session_ok (ses \<sigma>0) \<Longrightarrow> session_ok (ses \<sigma>)"
  by (erule session_steps.trace_inv) (simp_all add: list_all_iff)

lemma session_ok_initial: "session_ok (ses initial_sys)"
  by (simp add: session_ok_def initial_sys_def NewSessionContext_def)

text \<open>
  C21. A locked session holds no handle. In every state the session can reach through its methods,
  timer expiries, callbacks and announcements, in any interleaving, a session that is not active
  has an empty handle and no unlock time; so the handle query that does not check the unlocked
  flag agrees with the one that does, and the requirement check fails exactly when the session is
  locked.
\<close>

theorem locked_session_has_no_handle:
  assumes "session_run initial_sys ls \<sigma>"
  shows "MVKHandle (ses \<sigma>) = ActiveHandle (ses \<sigma>) \<and>
    (if IsUnlocked (ses \<sigma>) then RequireUnlocked (ses \<sigma>) = None
     else ActiveHandle (ses \<sigma>) = '''' \<and> RequireUnlocked (ses \<sigma>) \<noteq> None \<and>
          hl_mvk_handle (Health now (ses \<sigma>)) = False)"
  using session_ok_run [OF assms session_ok_initial]
  by (auto simp: session_ok_def MVKHandle_def ActiveHandle_def IsUnlocked_def RequireUnlocked_def Health_def)

theorem locked_session_has_no_handle_witness:
  "MVKHandle (fst (Lock_locked (Unlock_locked 5 ''h'' NewSessionContext))) = ''''"
proof -
  let ?\<sigma> = "initial_sys\<lparr>ses := fst (Lock_locked (Unlock_locked 5 ''h'' NewSessionContext)),
    announcing := [AnnounceReady, AnnounceLogout]\<rparr>"
  have "session_run initial_sys [LUnlock 5 ''h'', LLock] ?\<sigma>"
    by (simp add: session_step_simps initial_sys_def logout_due_def Lock_locked_def Unlock_locked_def Let_def)
  from locked_session_has_no_handle [OF this, of 0] show ?thesis
    by (simp add: IsUnlocked_def Lock_locked_def Let_def)
qed

section \<open>Calls that do not overlap\<close>

text \<open>
  The calls one after the other, each with its announcement: unlocking, locking (also by the
  timer callback), activity and a change of the interval.
\<close>

datatype session_call =
    CallUnlock time "byte list" string
  | CallLock time "byte list"
  | CallActivity time
  | CallMinutes int

definition with_events :: "SessionContext \<times> Event list \<Rightarrow> Event list \<Rightarrow> SessionContext \<times> Event list" where
  "with_events r evs = (fst r, evs @ snd r)"

fun session_apply :: "SessionContext \<times> Event list \<Rightarrow> session_call \<Rightarrow> SessionContext \<times> Event list" where
  "session_apply (s, evs) (CallUnlock now rnd h) = with_events (Unlock now rnd h s) evs"
| "session_apply (s, evs) (CallLock now rnd) = with_events (Lock now rnd s) evs"
| "session_apply (s, evs) (CallActivity now) = (ResetActivity now s, evs)"
| "session_apply (s, evs) (CallMinutes m) = (SetAutoLockMinutes m s, evs)"

definition in_step :: "SessionContext \<times> Event list \<Rightarrow> bool" where
  "in_step r \<longleftrightarrow> dispatcher (fst r) \<and>
     (active (fst r) \<longleftrightarrow> snd r \<noteq> [] \<and> ev_Type (last (snd r)) = EvAuthReady)"

lemma in_step_call: "in_step r \<Longrightarrow> in_step (session_apply r c)"
  by (cases r; cases c)
    (auto simp: in_step_def with_events_def session_defs NewEvent_def EvAuthReady_def EvAuthLogout_def)

interpretation session_calls: op_system session_apply in_step
  by unfold_locales (rule in_step_call)

text \<open>
  C22. Announcements follow the state. When the calls of a session with a dispatcher do not overlap,
  the vault is unlocked exactly when the last event that was dispatched is the ready event: a
  listener that remembers the last event knows the state.
\<close>

theorem last_event_tells_state:
  fixes cs
  defines "r \<equiv> run session_apply (SetDispatcher True NewSessionContext, []) cs"
  shows "IsUnlocked (fst r) \<longleftrightarrow> snd r \<noteq> [] \<and> ev_Type (last (snd r)) = EvAuthReady"
proof -
  have "in_step r"
    unfolding r_def
    by (rule session_calls.run_inv) (simp add: in_step_def SetDispatcher_def NewSessionContext_def)
  then show ?thesis
    by (simp add: in_step_def IsUnlocked_def)
qed

section \<open>Calls that overlap\<close>

text \<open>
  The announcement is made after the mutex was released, so two calls can announce in the
  opposite order. From any session with a dispatcher there is a run of an unlock and a lock, the
  lock after the unlock, after which the vault is locked and the last event is the ready event,
  with the unlock time of a session that was never unlocked.
\<close>

theorem announcement_overtaken:
  assumes "dispatcher (ses \<sigma>)" "announcing \<sigma> = []"
  shows "\<exists>\<sigma>'. session_run \<sigma> [LUnlock t h, LLock, LAnnounce 1 t1 r1, LAnnounce 0 t2 r2] \<sigma>' \<and>
    \<not> IsUnlocked (ses \<sigma>') \<and> announcing \<sigma>' = [] \<and>
    map ev_Type (emitted \<sigma>') = map ev_Type (emitted \<sigma>) @ [EvAuthLogout, EvAuthReady] \<and>
    ev_Payload (last (emitted \<sigma>')) = ready_payload zeroTime"
  using assms
  by (simp add: session_step_simps session_defs logout_due_def drop_at_def IsUnlocked_def NewEvent_def)

theorem announcement_overtaken_witness:
  "\<exists>\<sigma>'. session_run (initial_sys\<lparr>ses := SetDispatcher True NewSessionContext\<rparr>)
      [LUnlock 5 ''h'', LLock, LAnnounce 1 7 [], LAnnounce 0 8 []] \<sigma>' \<and>
    \<not> IsUnlocked (ses \<sigma>') \<and> ev_Type (last (emitted \<sigma>')) = EvAuthReady"
proof -
  obtain \<sigma>' where \<sigma>': "session_run (initial_sys\<lparr>ses := SetDispatcher True NewSessionContext\<rparr>)
      [LUnlock 5 ''h'', LLock, LAnnounce 1 7 [], LAnnounce 0 8 []] \<sigma>'" "\<not> IsUnlocked (ses \<sigma>')"
    "map ev_Type (emitted \<sigma>') = [EvAuthLogout, EvAuthReady]"
    using announcement_overtaken [of "initial_sys\<lparr>ses := SetDispatcher True NewSessionContext\<rparr>" 5 "''h''" 7 "[]" 8 "[]"]
    by (auto simp: SetDispatcher_def initial_sys_def simp del: trace_simps)
  then show ?thesis
    by (intro exI [of _ \<sigma>']) (auto simp: last_map [symmetric] simp del: trace_simps)
qed

text \<open>The number of ready and logout events, dispatched or still to come.\<close>

definition count_type :: "EventType \<Rightarrow> Event list \<Rightarrow> nat" where
  "count_type t evs = length (filter (\<lambda>e. ev_Type e = t) evs)"

definition announced :: "session_sys \<Rightarrow> bool" where
  "announced \<sigma> \<longleftrightarrow> dispatcher (ses \<sigma>) \<and>
     count_type EvAuthLogout (emitted \<sigma>) + count_list (announcing \<sigma>) AnnounceLogout + of_bool (active (ses \<sigma>)) \<le>
     count_type EvAuthReady (emitted \<sigma>) + count_list (announcing \<sigma>) AnnounceReady"

lemma count_list_drop_at:
  "i < length xs \<Longrightarrow> count_list xs x = count_list (drop_at i xs) x + of_bool (xs ! i = x)"
  by (subst id_take_nth_drop [of i xs]) (auto simp: drop_at_def simp del: take_append drop_append)

lemma announce_types:
  "dispatcher s \<Longrightarrow> map ev_Type (announce a now rnd s) =
     [case a of AnnounceReady \<Rightarrow> EvAuthReady | AnnounceLogout \<Rightarrow> EvAuthLogout]"
  by (cases a) (simp_all add: session_defs NewEvent_def)

lemma count_type_announce:
  assumes "dispatcher s"
  shows "count_type t (evs @ announce a now rnd s) =
    count_type t evs + of_bool (t = (case a of AnnounceReady \<Rightarrow> EvAuthReady | AnnounceLogout \<Rightarrow> EvAuthLogout))"
proof -
  have "count_type t xs = count_list (map ev_Type xs) t" for xs
    by (induction xs) (auto simp: count_type_def)
  then show ?thesis
    using announce_types [OF assms, of a now rnd] by simp
qed

lemma announced_step:
  assumes "session_step \<sigma> l \<sigma>'" "announced \<sigma>" "\<forall>d. l \<noteq> LDispatcher d"
  shows "announced \<sigma>'"
  using assms
proof (induction rule: session_step.induct)
  case (announce i \<sigma> now rnd)
  let ?a = "announcing \<sigma> ! i"
  have "EvAuthLogout \<noteq> EvAuthReady"
    by (simp add: EvAuthLogout_def EvAuthReady_def)
  then show ?case
    using announce count_list_drop_at [OF announce(1), of AnnounceReady] count_list_drop_at [OF announce(1), of AnnounceLogout]
    by (cases ?a) (auto simp: announced_def count_type_announce simp del: announce.simps)
qed (auto simp: session_defs announced_def logout_due_def split: if_splits)

text \<open>
  No logout without a login. Along every run of a session that had a dispatcher from the start,
  however its calls overlap, the logout events dispatched or still to be dispatched never
  outnumber the ready events, and are fewer while the session is active.
\<close>

theorem session_announcements:
  assumes "session_run (initial_sys\<lparr>ses := SetDispatcher True NewSessionContext\<rparr>) ls \<sigma>"
    "\<forall>d. LDispatcher d \<notin> set ls"
  shows "count_type EvAuthLogout (emitted \<sigma>) + count_list (announcing \<sigma>) AnnounceLogout + of_bool (IsUnlocked (ses \<sigma>)) \<le>
    count_type EvAuthReady (emitted \<sigma>) + count_list (announcing \<sigma>) AnnounceReady"
proof -
  have "announced \<sigma>'" if "session_run \<sigma> ls \<sigma>'" "announced \<sigma>" "\<forall>d. LDispatcher d \<notin> set ls" for \<sigma> \<sigma>'
    using that by (induction rule: trace.induct) (auto dest: announced_step)
  from this [OF assms(1) _ assms(2)] show ?thesis
    by (simp add: announced_def count_type_def SetDispatcher_def initial_sys_def NewSessionContext_def IsUnlocked_def)
qed

theorem session_announcements_witness:
  "\<exists>\<sigma>. session_run (initial_sys\<lparr>ses := SetDispatcher True NewSessionContext\<rparr>) [LUnlock 5 ''h'', LAnnounce 0 6 []] \<sigma> \<and>
    count_type EvAuthLogout (emitted \<sigma>) < count_type EvAuthReady (emitted \<sigma>)"
proof -
  let ?\<sigma>0 = "initial_sys\<lparr>ses := SetDispatcher True NewSessionContext\<rparr>"
  obtain \<sigma> where \<sigma>: "session_run ?\<sigma>0 [LUnlock 5 ''h'', LAnnounce 0 6 []] \<sigma>" "IsUnlocked (ses \<sigma>)" "announcing \<sigma> = []"
    by (auto simp: session_step_simps initial_sys_def session_defs IsUnlocked_def drop_at_def)
  from session_announcements [OF this(1)] \<sigma> show ?thesis
    by (intro exI [of _ \<sigma>]) (simp del: trace_simps)
qed

text \<open>
  The unlock event does not reveal the handle: with the same clock reading and random bytes,
  unlocking with two different handles dispatches the same events. The lock event is dispatched
  exactly when the session was active and has a dispatcher.
\<close>

theorem unlock_event_hides_handle:
  "snd (Unlock now rnd h s) = snd (Unlock now rnd h' s) \<and>
   map ev_Type (snd (Unlock now rnd h s)) = (if dispatcher s then [EvAuthReady] else []) \<and>
   map ev_Type (snd (Lock now rnd s)) = (if active s \<and> dispatcher s then [EvAuthLogout] else [])"
  by (auto simp: session_defs NewEvent_def)

section \<open>Auto-lock\<close>

text \<open>
  C23. Auto-lock. With an interval of \<open>m\<close> minutes (at most the number a 64-bit duration can
  hold), unlocking at \<open>t\<close> arms the timer for \<open>t + m\<close> minutes and activity at \<open>t'\<close> re-arms it
  for \<open>t' + m\<close> minutes; the timer can expire at \<open>now\<close> exactly when that deadline has passed. From
  then on the callback can run, and whenever it does it leaves the session locked, without a
  handle, and due to announce the logout.
\<close>

theorem auto_lock:
  fixes \<sigma> t t' h
  assumes "0 < autoLockMinutes (ses \<sigma>)" "autoLockMinutes (ses \<sigma>) \<le> maxMinutes"
  defines "m \<equiv> autoLockMinutes (ses \<sigma>) * Minute"
  defines "\<sigma>1 \<equiv> \<sigma>\<lparr>ses := Unlock_locked t h (ses \<sigma>), announcing := announcing \<sigma> @ [AnnounceReady]\<rparr>"
  defines "\<sigma>2 \<equiv> \<sigma>1\<lparr>ses := ResetActivity t' (ses \<sigma>1)\<rparr>"
  shows "session_run \<sigma> [LUnlock t h] \<sigma>1 \<and> session_run \<sigma>1 [LActivity t'] \<sigma>2 \<and>
    ((\<exists>\<tau>. session_run \<sigma>1 [LExpire now] \<tau>) \<longleftrightarrow> t + m \<le> now) \<and>
    ((\<exists>\<tau>. session_run \<sigma>2 [LExpire now] \<tau>) \<longleftrightarrow> t' + m \<le> now) \<and>
    (t' + m \<le> now \<longrightarrow> (\<exists>\<tau>. session_run \<sigma>2 [LExpire now, LCallback] \<tau> \<and>
      \<not> IsUnlocked (ses \<tau>) \<and> MVKHandle (ses \<tau>) = '''' \<and>
      announcing \<tau> = announcing \<sigma> @ [AnnounceReady, AnnounceLogout]))"
proof -
  have w: "wrap64 (autoLockMinutes (ses \<sigma>) * Minute) = m"
    using assms by (simp add: m_def wrap64_minutes)
  have "0 \<le> m"
    using assms by (simp add: m_def duration_defs)
  then have timers: "autoLockTimer (ses \<sigma>1) = Armed (t + m)" "autoLockTimer (ses \<sigma>2) = Armed (t' + m)"
    using assms(1) by (simp_all add: \<sigma>2_def \<sigma>1_def session_defs arm_def w)
  have "active (ses \<sigma>2)" "announcing \<sigma>2 = announcing \<sigma> @ [AnnounceReady]"
    by (simp_all add: \<sigma>2_def \<sigma>1_def session_defs)
  then show ?thesis
    by (auto simp: session_step_simps timers logout_due_def Lock_locked_def Let_def IsUnlocked_def MVKHandle_def)
      (simp_all add: \<sigma>2_def \<sigma>1_def)
qed

theorem auto_lock_witness:
  "(\<exists>\<tau>. session_run (initial_sys\<lparr>ses := Unlock_locked 0 ''h'' NewSessionContext, announcing := [AnnounceReady]\<rparr>)
      [LExpire (15 * Minute)] \<tau>) \<and>
   \<not> (\<exists>\<tau>. session_run (initial_sys\<lparr>ses := Unlock_locked 0 ''h'' NewSessionContext, announcing := [AnnounceReady]\<rparr>)
      [LExpire (15 * Minute - 1)] \<tau>)"
proof -
  have m: "0 < autoLockMinutes (ses initial_sys)" "autoLockMinutes (ses initial_sys) \<le> maxMinutes"
    "autoLockMinutes (ses initial_sys) = 15" "ses initial_sys = NewSessionContext" "announcing initial_sys = []"
    by (simp_all add: initial_sys_def NewSessionContext_def maxMinutes_def)
  show ?thesis
    using auto_lock [OF m(1,2), of 0 "''h''" 0 "15 * Minute"] auto_lock [OF m(1,2), of 0 "''h''" 0 "15 * Minute - 1"]
    unfolding m(3) unfolding m(4,5) by (simp del: trace_simps)
qed

text \<open>
  A stale callback locks a new session. A timer that has expired has started its callback, and
  neither a lock nor a new unlock can take it back: in any state with a started callback, a
  session that is unlocked now is locked by it at once, whatever its own interval is.
\<close>

theorem stale_callback_locks_new_session:
  assumes "callbacks \<sigma> = Suc n"
  shows "\<exists>\<tau>. session_run \<sigma> [LLock, LUnlock now h, LCallback] \<tau> \<and> \<not> IsUnlocked (ses \<tau>) \<and> MVKHandle (ses \<tau>) = ''''"
  using assms by (auto simp: session_step_simps Lock_locked_def Let_def IsUnlocked_def MVKHandle_def)

theorem stale_callback_locks_new_session_witness:
  "\<exists>\<tau>. session_run (initial_sys\<lparr>callbacks := 1\<rparr>) [LLock, LUnlock 5 ''h'', LCallback] \<tau> \<and> \<not> IsUnlocked (ses \<tau>) \<and>
    MVKHandle (ses \<tau>) = ''''"
  by (rule stale_callback_locks_new_session) simp

text \<open>
  Setting the interval to zero does not disable a running auto-lock: once a timer exists, the
  next activity arms it for the current instant, so the session is locked at once although the
  documented meaning of zero is that auto-lock is off.
\<close>

theorem zero_interval_locks_at_activity:
  assumes "0 < autoLockMinutes (ses \<sigma>)"
  shows "\<exists>\<tau>. session_run \<sigma> [LUnlock t h, LMinutes 0, LActivity now, LExpire now, LCallback] \<tau> \<and>
    \<not> IsUnlocked (ses \<tau>)"
  using assms
  by (auto simp: session_step_simps session_defs arm_def wrap64_def IsUnlocked_def)

theorem zero_interval_locks_at_activity_witness:
  "\<exists>\<tau>. session_run initial_sys [LUnlock 5 ''h'', LMinutes 0, LActivity 7, LExpire 7, LCallback] \<tau> \<and>
    \<not> IsUnlocked (ses \<tau>)"
  by (rule zero_interval_locks_at_activity) (simp add: initial_sys_def NewSessionContext_def)

end
