(* ===== verification/Grim_ZKP.thy ===== *)
theory Grim_ZKP
  imports Grim_Memory
begin

text \<open>
  \<open>engine/security/zkp.go\<close>: challenges, proofs and their verification. BLAKE2b-256 is a
  third-party hash: a parameter \<open>blake\<close> of the definitions, of which only the digest length is
  used. Random bytes (or the error of the random source) and clock readings are arguments.
\<close>

section \<open>State\<close>

definition ZKPNonceSize :: nat where "ZKPNonceSize = 32"
definition ZKPProofSize :: nat where "ZKPProofSize = 32"
definition zkpNonceTTL :: int where "zkpNonceTTL = 5 * Minute"

record ZKPChallenge =
  Nonce :: string
  ExpiresAt :: time

record ZKPVerifier =
  zk_pending :: "(string, byte list) gomap"
  zk_expiries :: "(string, time) gomap"

datatype zkp_error = NonceGenerationFailed go_error | ChallengeNotFound | ChallengeExpired
  | InvalidLength | VerificationFailed | InvalidNonce | InvalidKeyLength | IndexPanic

definition NewZKPVerifier :: ZKPVerifier where
  "NewZKPVerifier = \<lparr>zk_pending = [], zk_expiries = []\<rparr>"

section \<open>Operations\<close>

definition IssueChallenge ::
  "time \<Rightarrow> go_error + byte list \<Rightarrow> go_error + byte list \<Rightarrow> ZKPVerifier \<Rightarrow>
   (zkp_error + string \<times> ZKPChallenge) \<times> ZKPVerifier" where
  "IssueChallenge now rawID rawNonce v =
     (case rawID of
        Inl err \<Rightarrow> (Inl (NonceGenerationFailed err), v)
      | Inr rid \<Rightarrow>
          (let challengeID = hex_encode rid in
           case rawNonce of
             Inl err \<Rightarrow> (Inl (NonceGenerationFailed err), v)
           | Inr nonce \<Rightarrow>
               (let expiry = now + zkpNonceTTL
                in (Inr (challengeID, \<lparr>Nonce = hex_encode nonce, ExpiresAt = expiry\<rparr>),
                    v\<lparr>zk_pending := gomap_set (zk_pending v) challengeID nonce,
                      zk_expiries := gomap_set (zk_expiries v) challengeID expiry\<rparr>))))"

text \<open>
  The proof bytes: \<open>key XOR digest\<close>, byte by byte over the proof size; an index beyond the
  digest would panic.
\<close>

definition xor_digest :: "byte list \<Rightarrow> byte list \<Rightarrow> byte list option" where
  "xor_digest key digest =
     (if length digest < ZKPProofSize \<or> length key < ZKPProofSize then None
      else Some (map (\<lambda>i. key ! i XOR digest ! i) [0..<ZKPProofSize]))"

text \<open>\<open>subtle.ConstantTimeCompare\<close>\<close>

definition ConstantTimeCompare :: "byte list \<Rightarrow> byte list \<Rightarrow> int" where
  "ConstantTimeCompare x y = (if constantTimeEqual x y then 1 else 0)"

definition VerifyProof ::
  "(byte list \<Rightarrow> byte list) \<Rightarrow> time \<Rightarrow> string \<Rightarrow> byte list \<Rightarrow> byte list \<Rightarrow> ZKPVerifier \<Rightarrow>
   zkp_error option \<times> ZKPVerifier" where
  "VerifyProof blake now challengeID derivedKey proof v =
     (let found = gomap_get (zk_pending v) challengeID;
          expiry = gomap_index (zk_expiries v) zeroTime challengeID;
          v = v\<lparr>zk_pending := gomap_delete (zk_pending v) challengeID,
                zk_expiries := gomap_delete (zk_expiries v) challengeID\<rparr>
      in case found of
           None \<Rightarrow> (Some ChallengeNotFound, v)
         | Some nonce \<Rightarrow>
             if expiry < now then (Some ChallengeExpired, v)
             else if length derivedKey \<noteq> ZKPProofSize \<or> length proof \<noteq> ZKPProofSize
             then (Some InvalidLength, v)
             else (case xor_digest derivedKey (blake nonce) of
                     None \<Rightarrow> (Some IndexPanic, v)
                   | Some expected \<Rightarrow>
                       if ConstantTimeCompare expected proof \<noteq> 1 then (Some VerificationFailed, v)
                       else (None, v)))"

definition ComputeProof :: "(byte list \<Rightarrow> byte list) \<Rightarrow> byte list \<Rightarrow> string \<Rightarrow> zkp_error + byte list" where
  "ComputeProof blake derivedKey nonceHex =
     (case hex_decode nonceHex of
        None \<Rightarrow> Inl InvalidNonce
      | Some nonceBytes \<Rightarrow>
          if length nonceBytes \<noteq> ZKPNonceSize then Inl InvalidNonce
          else if length derivedKey \<noteq> ZKPProofSize then Inl InvalidKeyLength
          else (case xor_digest derivedKey (blake nonceBytes) of
                  None \<Rightarrow> Inl IndexPanic
                | Some proof \<Rightarrow> Inr proof))"

definition drop_challenge :: "string \<Rightarrow> ZKPVerifier \<Rightarrow> ZKPVerifier" where
  "drop_challenge cid v =
     v\<lparr>zk_pending := gomap_delete (zk_pending v) cid, zk_expiries := gomap_delete (zk_expiries v) cid\<rparr>"

definition PendingCount :: "time \<Rightarrow> ZKPVerifier \<Rightarrow> int \<times> ZKPVerifier" where
  "PendingCount now v =
     foldl (\<lambda>(count, v) (cid, expiry). if now < expiry then (count + 1, v) else (count, drop_challenge cid v))
       (0, v) (zk_expiries v)"

text \<open>One round of the cleanup loop, at a tick of its ticker.\<close>

definition cleanup_tick :: "time \<Rightarrow> ZKPVerifier \<Rightarrow> ZKPVerifier" where
  "cleanup_tick now v =
     foldl (\<lambda>v (cid, expiry). if expiry < now then drop_challenge cid v else v) v (zk_expiries v)"

section \<open>Proofs\<close>

lemma xor_digest_Some:
  "length key = 32 \<Longrightarrow> length d = 32 \<Longrightarrow> xor_digest key d = Some (map2 (XOR) key d)"
  by (auto simp: xor_digest_def ZKPProofSize_def intro!: nth_equalityI)

lemma map2_xor_cancel: "length a = length d \<Longrightarrow> map2 (XOR) (map2 (XOR) a d) d = (a :: byte list)"
  by (induction a d rule: list_induct2) (auto simp: xor.assoc)

lemma ConstantTimeCompare_iff [simp]: "ConstantTimeCompare x y = 1 \<longleftrightarrow> x = y"
  by (simp add: ConstantTimeCompare_def constantTimeEqual_eq)

text \<open>
  C17. Verification decides the proof. After a challenge has been issued at \<open>t\<close> (with any state
  before it), a proof presented more than five minutes later is refused as expired, and otherwise
  with the length error when key or proof do not have 32 bytes; a proof of 32 bytes is accepted
  exactly when it is the byte-by-byte XOR of the key and the digest of the nonce. In every case
  the challenge is gone. The client computes just this proof from the challenge, and an error for a
  key of another length.
\<close>

theorem zkp_verify_iff:
  assumes digest: "\<And>m. length (blake m) = 32" and size: "length nonce = 32"
  shows "case IssueChallenge t (Inr rid) (Inr nonce) v of
      (Inr (cid, ch), v') \<Rightarrow>
        fst (VerifyProof blake now cid key pf v') =
          (if t + 300 * 1000000000 < now then Some ChallengeExpired
           else if length key \<noteq> 32 \<or> length pf \<noteq> 32 then Some InvalidLength
           else if pf = map2 (XOR) key (blake nonce) then None
           else Some VerificationFailed) \<and>
        gomap_get (zk_pending (snd (VerifyProof blake now cid key pf v'))) cid = None \<and>
        ComputeProof blake key (Nonce ch) =
          (if length key = 32 then Inr (map2 (XOR) key (blake nonce)) else Inl InvalidKeyLength)
    | (Inl _, _) \<Rightarrow> False"
  using assms
  by (auto simp: IssueChallenge_def VerifyProof_def ComputeProof_def zkpNonceTTL_def ZKPProofSize_def
      ZKPNonceSize_def gomap_index_def xor_digest_Some duration_defs Let_def)

definition toy_digest :: "byte list \<Rightarrow> byte list" where
  "toy_digest m = take 32 (m @ replicate 32 0)"

lemma toy_digest_simps [simp]: "length (toy_digest m) = 32" "toy_digest (replicate 32 x) = replicate 32 x"
  by (simp_all add: toy_digest_def)

theorem zkp_verify_iff_witness:
  "fst (VerifyProof toy_digest 5 (hex_encode [1]) (replicate 32 3) (replicate 32 2)
     (snd (IssueChallenge 0 (Inr [1]) (Inr (replicate 32 1)) NewZKPVerifier))) = None"
  using zkp_verify_iff [where blake = toy_digest and now = 5 and t = 0 and nonce = "replicate 32 1"
      and key = "replicate 32 3" and rid = "[1]" and v = NewZKPVerifier and pf = "replicate 32 2"]
  by (simp add: IssueChallenge_def ComputeProof_def ZKPProofSize_def ZKPNonceSize_def xor_digest_Some
      zip_replicate Let_def)

text \<open>
  A proof and its nonce reveal the derived key: applying the client's computation to an
  intercepted proof with the same nonce returns the key itself, so whoever sees the challenge
  and the response has the key, contrary to the stated property that the derived key stays
  hidden without the password.
\<close>

theorem proof_reveals_key:
  assumes digest: "\<And>m. length (blake m) = 32" and pr: "ComputeProof blake key nonceHex = Inr p"
  shows "ComputeProof blake p nonceHex = Inr key"
proof -
  obtain nonce where n: "hex_decode nonceHex = Some nonce" "length nonce = 32" "length key = 32"
    "p = map2 (XOR) key (blake nonce)"
    using pr digest
    by (auto simp: ComputeProof_def ZKPProofSize_def ZKPNonceSize_def xor_digest_Some
        split: option.splits if_splits)
  then show ?thesis
    using digest [of nonce]
    by (simp add: ComputeProof_def ZKPProofSize_def ZKPNonceSize_def xor_digest_Some map2_xor_cancel)
qed

theorem proof_reveals_key_witness:
  "ComputeProof toy_digest (replicate 32 2) (hex_encode (replicate 32 1)) = Inr (replicate 32 3)"
  by (rule proof_reveals_key [OF toy_digest_simps(1)])
    (simp add: ComputeProof_def ZKPProofSize_def ZKPNonceSize_def xor_digest_Some)

section \<open>Challenges are single use\<close>

datatype zkp_op =
    OpIssue time "go_error + byte list" "go_error + byte list"
  | OpVerify time string "byte list" "byte list"
  | OpCount time
  | OpCleanup time

fun zkp_step :: "(byte list \<Rightarrow> byte list) \<Rightarrow> ZKPVerifier \<Rightarrow> zkp_op \<Rightarrow> ZKPVerifier" where
  "zkp_step blake v (OpIssue now rid nonce) = snd (IssueChallenge now rid nonce v)"
| "zkp_step blake v (OpVerify now cid key p) = snd (VerifyProof blake now cid key p v)"
| "zkp_step blake v (OpCount now) = snd (PendingCount now v)"
| "zkp_step blake v (OpCleanup now) = cleanup_tick now v"

definition zkp_inv :: "ZKPVerifier \<Rightarrow> bool" where
  "zkp_inv v \<longleftrightarrow>
     gomap (zk_pending v) \<and> gomap (zk_expiries v) \<and> dom (map_of (zk_pending v)) = dom (map_of (zk_expiries v))"

lemma VerifyProof_state: "snd (VerifyProof blake now cid key p v) = drop_challenge cid v"
  by (auto simp: VerifyProof_def drop_challenge_def Let_def split: option.split)

lemma drop_challenge_simps [simp]:
  "map_of (zk_pending (drop_challenge cid v)) = (map_of (zk_pending v))(cid := None)"
  "map_of (zk_expiries (drop_challenge cid v)) = (map_of (zk_expiries v))(cid := None)"
  by (simp_all add: drop_challenge_def)

lemma zkp_inv_drop: "zkp_inv v \<Longrightarrow> zkp_inv (drop_challenge cid v)"
  by (auto simp: zkp_inv_def drop_challenge_def)

text \<open>Both sweeps drop the challenges of the map that satisfy a test, in iteration order.\<close>

definition sweep :: "(time \<Rightarrow> bool) \<Rightarrow> (string, time) gomap \<Rightarrow> ZKPVerifier \<Rightarrow> ZKPVerifier" where
  "sweep stale es v = foldl (\<lambda>v (cid, expiry). if stale expiry then drop_challenge cid v else v) v es"

lemma PendingCount_sweep:
  "PendingCount now v =
     (int (length (filter (\<lambda>(cid, expiry). now < expiry) (zk_expiries v))),
      sweep (\<lambda>expiry. \<not> now < expiry) (zk_expiries v) v)"
proof -
  have "foldl (\<lambda>(count, v) (cid, expiry). if now < expiry then (count + 1, v) else (count, drop_challenge cid v))
      (c, v) es =
    (c + int (length (filter (\<lambda>(cid, expiry). now < expiry) es)), sweep (\<lambda>expiry. \<not> now < expiry) es v)" for c es
    by (induction es arbitrary: c v) (auto simp: sweep_def)
  then show ?thesis
    by (simp add: PendingCount_def)
qed

lemma sweep_inv: "zkp_inv v \<Longrightarrow> zkp_inv (sweep stale es v)"
  by (induction es arbitrary: v) (auto simp: sweep_def zkp_inv_drop)

lemma map_of_sweep:
  "map_of (zk_pending (sweep stale es v)) cid =
     (if \<exists>expiry. (cid, expiry) \<in> set es \<and> stale expiry then None else map_of (zk_pending v) cid)"
  "map_of (zk_expiries (sweep stale es v)) cid =
     (if \<exists>expiry. (cid, expiry) \<in> set es \<and> stale expiry then None else map_of (zk_expiries v) cid)"
  by (induction es arbitrary: v) (auto simp: sweep_def)

lemma zkp_inv_step: "zkp_inv v \<Longrightarrow> zkp_inv (zkp_step blake v oper)"
proof (cases oper)
  case (OpIssue now rid nonce)
  then show "zkp_inv v \<Longrightarrow> ?thesis"
    by (auto simp: IssueChallenge_def zkp_inv_def Let_def split: sum.split)
qed (simp_all add: VerifyProof_state zkp_inv_drop PendingCount_sweep sweep_inv
    cleanup_tick_def sweep_def [symmetric])

interpretation zkp: op_system "zkp_step blake" zkp_inv for blake
  by unfold_locales (rule zkp_inv_step)

fun issues :: "string \<Rightarrow> zkp_op \<Rightarrow> bool" where
  "issues cid (OpIssue now (Inr rid) nonce) \<longleftrightarrow> hex_encode rid = cid"
| "issues cid _ \<longleftrightarrow> False"

lemma not_pending_stable:
  "map_of (zk_pending v) cid = None \<Longrightarrow> \<not> issues cid oper \<Longrightarrow> map_of (zk_pending (zkp_step blake v oper)) cid = None"
proof (cases oper)
  case (OpIssue now rid nonce)
  then show "map_of (zk_pending v) cid = None \<Longrightarrow> \<not> issues cid oper \<Longrightarrow> ?thesis"
    by (cases rid) (auto simp: IssueChallenge_def Let_def split: sum.split)
qed (simp_all add: VerifyProof_state PendingCount_sweep map_of_sweep cleanup_tick_def sweep_def [symmetric])

text \<open>
  C18. No replay. Once a proof for a challenge has been checked, with whatever result, every later
  attempt on the same challenge is refused as not found, after any sequence of further calls and
  cleanup rounds that does not draw the same identifier again.
\<close>

theorem zkp_no_replay:
  fixes blake now key p
  assumes "zkp_inv v" "\<forall>oper \<in> set ops. \<not> issues cid oper"
  defines "v' \<equiv> run (zkp_step blake) (snd (VerifyProof blake now cid key p v)) ops"
  shows "fst (VerifyProof blake now' cid key' p' v') = Some ChallengeNotFound"
proof -
  have "map_of (zk_pending v') cid = None"
    unfolding v'_def
    by (rule zkp.run_stable [where P = "\<lambda>v. map_of (zk_pending v) cid = None" and Q = "\<lambda>oper. \<not> issues cid oper"])
      (use assms not_pending_stable in \<open>auto simp: VerifyProof_state zkp_inv_drop\<close>)
  then show ?thesis
    by (simp add: VerifyProof_def Let_def)
qed

definition first_challenge :: ZKPVerifier where
  "first_challenge = snd (IssueChallenge 0 (Inr [1]) (Inr (replicate 32 1)) NewZKPVerifier)"

theorem zkp_no_replay_witness:
  "gomap_get (zk_pending first_challenge) ''01'' = Some (replicate 32 1) \<and>
   fst (VerifyProof toy_digest 9 ''01'' (replicate 32 3) (replicate 32 2) (run (zkp_step toy_digest)
     (snd (VerifyProof toy_digest 5 ''01'' (replicate 32 3) (replicate 32 2) first_challenge))
     [OpIssue 6 (Inr [2]) (Inr (replicate 32 4)), OpCleanup 7])) = Some ChallengeNotFound"
proof (intro conjI zkp_no_replay)
  show "gomap_get (zk_pending first_challenge) ''01'' = Some (replicate 32 1)"
    by code_simp
  have "zkp_inv NewZKPVerifier"
    by (simp add: zkp_inv_def NewZKPVerifier_def)
  then show "zkp_inv first_challenge"
    unfolding first_challenge_def zkp_step.simps(1) [of toy_digest, symmetric] by (rule zkp_inv_step)
  have "hex_encode [2] \<noteq> ''01''"
    by code_simp
  then show "\<forall>oper \<in> set [OpIssue 6 (Inr [2]) (Inr (replicate 32 4)), OpCleanup 7]. \<not> issues ''01'' oper"
    by simp
qed

text \<open>
  The verifier's two maps. After any sequence of calls the nonce map and the expiry map have
  the same keys, so no nonce lacks an expiry; and counting returns the number of challenges that
  have not expired and leaves exactly those.
\<close>

theorem zkp_maps_agree:
  fixes blake ops now
  defines "v \<equiv> run (zkp_step blake) NewZKPVerifier ops"
  shows "dom (map_of (zk_pending v)) = dom (map_of (zk_expiries v)) \<and>
    (gomap_get (zk_pending (snd (PendingCount now v))) cid =
      (case gomap_get (zk_expiries v) cid of
         Some expiry \<Rightarrow> if now < expiry then gomap_get (zk_pending v) cid else None
       | None \<Rightarrow> None)) \<and>
    fst (PendingCount now v) = int (card {cid. \<exists>expiry. gomap_get (zk_expiries v) cid = Some expiry \<and> now < expiry})"
proof -
  have inv: "zkp_inv v"
    unfolding v_def by (rule zkp.run_inv) (simp add: zkp_inv_def NewZKPVerifier_def)
  then have g: "gomap (zk_expiries v)"
    by (simp add: zkp_inv_def)
  let ?live = "filter (\<lambda>(cid, expiry). now < expiry) (zk_expiries v)"
  have "{cid. \<exists>expiry. gomap_get (zk_expiries v) cid = Some expiry \<and> now < expiry} = fst ` set ?live"
    using gomap_in_set [OF g] by (force simp: image_iff)
  moreover have "distinct (map fst ?live)"
    using g by (simp add: gomap_def distinct_map_filter)
  ultimately have "card {cid. \<exists>expiry. gomap_get (zk_expiries v) cid = Some expiry \<and> now < expiry} = length ?live"
    using distinct_card [of "map fst ?live"] by (simp only: set_map length_map)
  moreover have "gomap_get (zk_pending v) cid = None" if "gomap_get (zk_expiries v) cid = None"
    using inv that by (metis zkp_inv_def domIff)
  ultimately show ?thesis
    using inv by (auto simp: zkp_inv_def PendingCount_sweep map_of_sweep gomap_in_set [OF g] split: option.split)
qed

end
