(* ===== verification/Grim_Storage.thy ===== *)
theory Grim_Storage
  imports Grim_Errors
begin

text \<open>
  \<open>engine/storage\<close>: blocks, the no-op strategy and the buffered write transaction. The block
  store itself is an interface without an implementation in the engine; the transaction is
  modelled over its operations, each of which returns an error or nil and the new store. The contract
  of \<open>WriteTransaction\<close> is the locale \<open>write_transaction\<close>, which the buffered transaction satisfies.
\<close>

section \<open>Blocks and stores\<close>

type_synonym Category = string

definition CategoryPassword :: Category where "CategoryPassword = ''PASSWORD''"
definition CategorySSHKey :: Category where "CategorySSHKey = ''SSH_KEY''"
definition CategoryCertificate :: Category where "CategoryCertificate = ''CERTIFICATE''"
definition CategoryFileVault :: Category where "CategoryFileVault = ''FILE_VAULT''"

record Block =
  b_ID :: string
  b_Nonce :: "byte list"
  b_HMAC :: "byte list"
  b_Data :: "byte list"
  b_Category :: Category
  b_CreatedAt :: int
  b_UpdatedAt :: int

record BlockMeta =
  bm_ID :: string
  bm_Size :: int
  bm_Category :: Category
  bm_CreatedAt :: int
  bm_UpdatedAt :: int

record 's BlockStore =
  bs_WriteBlock :: "Block \<Rightarrow> 's \<Rightarrow> go_error option \<times> 's"
  bs_ReadBlock :: "string \<Rightarrow> 's \<Rightarrow> (go_error + Block) \<times> 's"
  bs_DeleteBlock :: "string \<Rightarrow> 's \<Rightarrow> go_error option \<times> 's"
  bs_ListBlocks :: "'s \<Rightarrow> (go_error + BlockMeta list) \<times> 's"
  bs_QueryBlocks :: "Category \<Rightarrow> 's \<Rightarrow> (go_error + BlockMeta list) \<times> 's"
  bs_Flush :: "'s \<Rightarrow> go_error option \<times> 's"
  bs_Close :: "'s \<Rightarrow> go_error option \<times> 's"

text \<open>The strategy interface and its no-op implementation.\<close>

record StorageStrategy =
  st_Name :: string
  st_OnWrite :: "Block \<Rightarrow> go_error + Block"
  st_OnRead :: "Block \<Rightarrow> go_error + Block"
  st_OnTrigger :: "string \<Rightarrow> go_error option"

definition NopStrategy :: StorageStrategy where
  "NopStrategy = \<lparr>st_Name = ''nop'', st_OnWrite = Inr, st_OnRead = Inr, st_OnTrigger = (\<lambda>_. None)\<rparr>"

section \<open>The buffered transaction\<close>

record InMemoryWriteTransaction =
  tx_writes :: "Block list"
  tx_deletes :: "string list"
  tx_done :: bool

text \<open>The error of a closed transaction, or an error of the store.\<close>

datatype tx_error = ErrTransactionClosed | StoreError go_error

definition NewInMemoryWriteTransaction :: InMemoryWriteTransaction where
  "NewInMemoryWriteTransaction = \<lparr>tx_writes = [], tx_deletes = [], tx_done = False\<rparr>"

definition tx_WriteBlock :: "Block \<Rightarrow> InMemoryWriteTransaction \<Rightarrow> tx_error option \<times> InMemoryWriteTransaction" where
  "tx_WriteBlock b t =
     (if tx_done t then (Some ErrTransactionClosed, t) else (None, t\<lparr>tx_writes := tx_writes t @ [b]\<rparr>))"

definition tx_DeleteBlock :: "string \<Rightarrow> InMemoryWriteTransaction \<Rightarrow> tx_error option \<times> InMemoryWriteTransaction" where
  "tx_DeleteBlock bid t =
     (if tx_done t then (Some ErrTransactionClosed, t) else (None, t\<lparr>tx_deletes := tx_deletes t @ [bid]\<rparr>))"

text \<open>A loop over staged operations that stops at the first error.\<close>

fun apply_all :: "('a \<Rightarrow> 's \<Rightarrow> go_error option \<times> 's) \<Rightarrow> 'a list \<Rightarrow> 's \<Rightarrow> go_error option \<times> 's" where
  "apply_all f [] s = (None, s)"
| "apply_all f (x # xs) s = (case f x s of (Some e, s) \<Rightarrow> (Some e, s) | (None, s) \<Rightarrow> apply_all f xs s)"

definition tx_Commit ::
  "'s BlockStore \<Rightarrow> InMemoryWriteTransaction \<Rightarrow> 's \<Rightarrow> tx_error option \<times> InMemoryWriteTransaction \<times> 's" where
  "tx_Commit store t s =
     (if tx_done t then (Some ErrTransactionClosed, t, s)
      else
        let t = t\<lparr>tx_done := True\<rparr> in
        case apply_all (bs_WriteBlock store) (tx_writes t) s of
          (Some e, s) \<Rightarrow> (Some (StoreError e), t, s)
        | (None, s) \<Rightarrow>
            (case apply_all (bs_DeleteBlock store) (tx_deletes t) s of
               (Some e, s) \<Rightarrow> (Some (StoreError e), t, s)
             | (None, s) \<Rightarrow>
                 (case bs_Flush store s of (e, s) \<Rightarrow> (map_option StoreError e, t, s))))"

definition tx_Rollback :: "InMemoryWriteTransaction \<Rightarrow> InMemoryWriteTransaction" where
  "tx_Rollback t = t\<lparr>tx_done := True, tx_writes := [], tx_deletes := []\<rparr>"

section \<open>What a commit does to the store\<close>

text \<open>The calls a client makes before the commit.\<close>

datatype stage = SWrite Block | SDelete string

fun stage_step :: "InMemoryWriteTransaction \<Rightarrow> stage \<Rightarrow> InMemoryWriteTransaction" where
  "stage_step t (SWrite b) = snd (tx_WriteBlock b t)"
| "stage_step t (SDelete bid) = snd (tx_DeleteBlock bid t)"

fun put_block :: "(string \<rightharpoonup> Block) \<Rightarrow> stage \<Rightarrow> (string \<rightharpoonup> Block)" where
  "put_block v (SWrite b) = v(b_ID b \<mapsto> b)"
| "put_block v (SDelete bid) = v(bid := None)"

definition is_write :: "stage \<Rightarrow> bool" where
  "is_write st = (case st of SWrite b \<Rightarrow> True | SDelete bid \<Rightarrow> False)"

text \<open>
  What the engine relies on of a store with contents \<open>view\<close>: a write or delete that returns nil
  changes exactly its block, and a flush changes none. Nothing is said of calls that fail.
\<close>

definition store_laws :: "'s BlockStore \<Rightarrow> ('s \<Rightarrow> string \<rightharpoonup> Block) \<Rightarrow> bool" where
  "store_laws store view \<longleftrightarrow>
     (\<forall>b s. fst (bs_WriteBlock store b s) = None \<longrightarrow>
        view (snd (bs_WriteBlock store b s)) = (view s)(b_ID b \<mapsto> b)) \<and>
     (\<forall>bid s. fst (bs_DeleteBlock store bid s) = None \<longrightarrow>
        view (snd (bs_DeleteBlock store bid s)) = (view s)(bid := None)) \<and>
     (\<forall>s. view (snd (bs_Flush store s)) = view s)"

text \<open>A staged operation as a direct call of the store, and the order in which a commit makes the calls.\<close>

fun store_call :: "'s BlockStore \<Rightarrow> stage \<Rightarrow> 's \<Rightarrow> go_error option \<times> 's" where
  "store_call store (SWrite b) = bs_WriteBlock store b"
| "store_call store (SDelete bid) = bs_DeleteBlock store bid"

definition commit_order :: "stage list \<Rightarrow> stage list" where
  "commit_order ops = filter is_write ops @ filter (\<lambda>st. \<not> is_write st) ops"

definition staged_writes :: "stage list \<Rightarrow> Block list" where
  "staged_writes ops = concat (map (\<lambda>st. case st of SWrite b \<Rightarrow> [b] | SDelete bid \<Rightarrow> []) ops)"

definition staged_deletes :: "stage list \<Rightarrow> string list" where
  "staged_deletes ops = concat (map (\<lambda>st. case st of SWrite b \<Rightarrow> [] | SDelete bid \<Rightarrow> [bid]) ops)"

lemma staged:
  "\<not> tx_done t \<Longrightarrow> run stage_step t ops =
     t\<lparr>tx_writes := tx_writes t @ staged_writes ops, tx_deletes := tx_deletes t @ staged_deletes ops\<rparr>"
proof (induction ops arbitrary: t)
  case (Cons oper ops)
  then show ?case
    by (cases oper) (simp_all add: tx_WriteBlock_def tx_DeleteBlock_def staged_writes_def staged_deletes_def)
qed (simp add: staged_writes_def staged_deletes_def)

lemma commit_order_parts:
  "commit_order ops = map SWrite (staged_writes ops) @ map SDelete (staged_deletes ops)"
proof -
  have "filter is_write ops = map SWrite (staged_writes ops)"
    by (induction ops) (auto simp: is_write_def staged_writes_def split: stage.splits)
  moreover have "filter (\<lambda>st. \<not> is_write st) ops = map SDelete (staged_deletes ops)"
    by (induction ops) (auto simp: is_write_def staged_deletes_def split: stage.splits)
  ultimately show ?thesis
    by (simp add: commit_order_def)
qed

lemma apply_all_append:
  "apply_all f (xs @ ys) s =
     (case apply_all f xs s of (Some e, s) \<Rightarrow> (Some e, s) | (None, s) \<Rightarrow> apply_all f ys s)"
  by (induction xs arbitrary: s) (auto split: prod.splits option.splits)

lemma apply_all_map: "apply_all f (map g xs) s = apply_all (\<lambda>x. f (g x)) xs s"
  by (induction xs arbitrary: s) (auto split: prod.splits option.splits)

lemma apply_all_view:
  assumes "store_laws store view" "apply_all (store_call store) xs s = (None, s')"
  shows "view s' = foldl put_block (view s) xs"
  using assms(2)
proof (induction xs arbitrary: s)
  case (Cons x xs)
  then obtain s1 where "store_call store x s = (None, s1)" "apply_all (store_call store) xs s1 = (None, s')"
    by (auto split: prod.splits option.splits)
  moreover from this(1) have "view s1 = put_block (view s) x"
    using assms(1) unfolding store_laws_def
    by (cases x; simp only: store_call.simps put_block.simps) (metis fst_conv snd_conv)+
  ultimately show ?case
    using Cons.IH by simp
qed simp

lemma foldl_put_block_other:
  "(\<forall>b. SWrite b \<in> set xs \<longrightarrow> b_ID b \<noteq> i) \<Longrightarrow> (SDelete i \<notin> set xs) \<Longrightarrow> foldl put_block v xs i = v i"
proof (induction xs arbitrary: v)
  case (Cons x xs)
  then show ?case
    by (cases x) auto
qed simp

lemma foldl_put_block_delete:
  "foldl put_block v (map SDelete ids) i = (if i \<in> set ids then None else v i)"
  by (induction ids arbitrary: v) auto

lemma foldl_put_block_write:
  "foldl put_block v (map SWrite bs) = v ++ map_of (rev (map (\<lambda>b. (b_ID b, b)) bs))"
  by (induction bs arbitrary: v) (auto simp: map_add_def fun_eq_iff split: option.split)

lemma commit_calls:
  "tx_Commit store (run stage_step NewInMemoryWriteTransaction ops) s =
     (let t = (run stage_step NewInMemoryWriteTransaction ops)\<lparr>tx_done := True\<rparr> in
      case apply_all (store_call store) (commit_order ops) s of
        (Some e, s) \<Rightarrow> (Some (StoreError e), t, s)
      | (None, s) \<Rightarrow> (map_option StoreError (fst (bs_Flush store s)), t, snd (bs_Flush store s)))"
  by (simp add: tx_Commit_def staged NewInMemoryWriteTransaction_def commit_order_parts
      apply_all_append apply_all_map Let_def split: prod.split option.split)

section \<open>Properties\<close>

text \<open>
  For every sequence of staged writes and deletes, committing the transaction makes exactly the
  calls of the staged operations on the store, all writes in their order before all deletes in their
  order, stops at the first call that fails and returns its error with the effects of the earlier
  calls left in the store, and flushes only after the last one; the transaction is closed in every
  case.
\<close>

theorem commit_makes_staged_calls:
  "tx_Commit store (run stage_step NewInMemoryWriteTransaction ops) s =
     (let t = (run stage_step NewInMemoryWriteTransaction ops)\<lparr>tx_done := True\<rparr> in
      case apply_all (store_call store) (commit_order ops) s of
        (Some e, s) \<Rightarrow> (Some (StoreError e), t, s)
      | (None, s) \<Rightarrow> (map_option StoreError (fst (bs_Flush store s)), t, snd (bs_Flush store s)))"
  by (rule commit_calls)

text \<open>
  C30. After a commit that returned nil on a store that keeps its laws, a block that was staged for
  deletion is absent, even when it was written after the deletion was staged; every other block
  that was staged for writing holds its last written version; and all the other blocks are as they
  were before the commit.
\<close>

theorem commit_contents:
  assumes "store_laws store view"
    and "tx_Commit store (run stage_step NewInMemoryWriteTransaction ops) s = (None, t, s')"
  shows "view s' i =
    (if SDelete i \<in> set ops then None
     else case find (\<lambda>b. b_ID b = i) (rev (staged_writes ops)) of Some b \<Rightarrow> Some b | None \<Rightarrow> view s i)"
proof -
  obtain s1 where s1: "apply_all (store_call store) (commit_order ops) s = (None, s1)" "s' = snd (bs_Flush store s1)"
    using assms(2)
    by (auto simp: tx_Commit_def staged NewInMemoryWriteTransaction_def commit_order_parts
        apply_all_append apply_all_map Let_def split: prod.splits option.splits)
  have "view s' = foldl put_block (view s) (commit_order ops)"
    using apply_all_view [OF assms(1) s1(1)] assms(1) s1(2) by (simp add: store_laws_def)
  moreover have "i \<in> set (staged_deletes ops) \<longleftrightarrow> SDelete i \<in> set ops"
    by (auto simp: staged_deletes_def split: stage.splits intro!: bexI [of _ "SDelete i"])
  moreover have "map_of (map (\<lambda>b. (b_ID b, b)) bs) i = find (\<lambda>b. b_ID b = i) bs" for bs :: "Block list"
    by (induction bs) auto
  ultimately show ?thesis
    by (simp add: commit_order_parts foldl_put_block_delete foldl_put_block_write map_add_def rev_map
        split: option.split)
qed

theorem commit_contents_witness:
  "\<exists>(store :: (string \<rightharpoonup> Block) BlockStore) s'. tx_Commit store (run stage_step NewInMemoryWriteTransaction
      [SDelete ''a'', SWrite \<lparr>b_ID = ''a'', b_Nonce = [], b_HMAC = [], b_Data = [1], b_Category = ''c'', b_CreatedAt = 0, b_UpdatedAt = 0\<rparr>])
      Map.empty = (None, \<lparr>tx_writes = [\<lparr>b_ID = ''a'', b_Nonce = [], b_HMAC = [], b_Data = [1], b_Category = ''c'', b_CreatedAt = 0, b_UpdatedAt = 0\<rparr>],
        tx_deletes = [''a''], tx_done = True\<rparr>, s') \<and> s' ''a'' = None"
proof -
  define store :: "(string \<rightharpoonup> Block) BlockStore" where
    "store = \<lparr>bs_WriteBlock = (\<lambda>b s. (None, s(b_ID b \<mapsto> b))),
       bs_ReadBlock = (\<lambda>bid s. (case s bid of None \<Rightarrow> Inl (ErrOther 0 ''not found'') | Some b \<Rightarrow> Inr b, s)),
       bs_DeleteBlock = (\<lambda>bid s. (None, s(bid := None))), bs_ListBlocks = Pair (Inr []),
       bs_QueryBlocks = (\<lambda>_. Pair (Inr [])), bs_Flush = Pair None, bs_Close = Pair None\<rparr>"
  let ?b = "\<lparr>b_ID = ''a'', b_Nonce = [], b_HMAC = [], b_Data = [1], b_Category = ''c'', b_CreatedAt = 0, b_UpdatedAt = 0\<rparr> :: Block"
  let ?ops = "[SDelete ''a'', SWrite ?b]"
  have laws: "store_laws store (\<lambda>s. s)"
    by (simp add: store_laws_def store_def)
  have res: "tx_Commit store (run stage_step NewInMemoryWriteTransaction ?ops) Map.empty =
      (None, \<lparr>tx_writes = [?b], tx_deletes = [''a''], tx_done = True\<rparr>, Map.empty(''a'' \<mapsto> ?b, ''a'' := None))"
    by (simp add: store_def tx_Commit_def tx_WriteBlock_def tx_DeleteBlock_def NewInMemoryWriteTransaction_def)
  show ?thesis
    using commit_contents [OF laws res, of "''a''"] res by fastforce
qed

section \<open>The contract of a transaction\<close>

text \<open>
  \<open>WriteTransaction\<close>, over the state of a transaction together with its store, and the buffered
  transaction as an implementation.
\<close>

record 'x WriteTransaction =
  wt_WriteBlock :: "Block \<Rightarrow> 'x \<Rightarrow> tx_error option \<times> 'x"
  wt_DeleteBlock :: "string \<Rightarrow> 'x \<Rightarrow> tx_error option \<times> 'x"
  wt_Commit :: "'x \<Rightarrow> tx_error option \<times> 'x"
  wt_Rollback :: "'x \<Rightarrow> 'x"

definition in_memory :: "'s BlockStore \<Rightarrow> (InMemoryWriteTransaction \<times> 's) WriteTransaction" where
  "in_memory store =
     \<lparr>wt_WriteBlock = (\<lambda>b (t, s). case tx_WriteBlock b t of (e, t) \<Rightarrow> (e, t, s)),
      wt_DeleteBlock = (\<lambda>bid (t, s). case tx_DeleteBlock bid t of (e, t) \<Rightarrow> (e, t, s)),
      wt_Commit = (\<lambda>(t, s). tx_Commit store t s),
      wt_Rollback = (\<lambda>(t, s). (tx_Rollback t, s))\<rparr>"

datatype tx_call = TxWrite Block | TxDelete string | TxCommit | TxRollback

fun tx_step :: "'x WriteTransaction \<Rightarrow> 'x \<Rightarrow> tx_call \<Rightarrow> 'x" where
  "tx_step tx x (TxWrite b) = snd (wt_WriteBlock tx b x)"
| "tx_step tx x (TxDelete bid) = snd (wt_DeleteBlock tx bid x)"
| "tx_step tx x TxCommit = snd (wt_Commit tx x)"
| "tx_step tx x TxRollback = wt_Rollback tx x"

definition is_staging :: "tx_call \<Rightarrow> bool" where
  "is_staging c \<longleftrightarrow> c \<noteq> TxCommit \<and> c \<noteq> TxRollback"

fun tx_result :: "'x WriteTransaction \<Rightarrow> 'x \<Rightarrow> tx_call \<Rightarrow> tx_error option" where
  "tx_result tx x (TxWrite b) = fst (wt_WriteBlock tx b x)"
| "tx_result tx x (TxDelete bid) = fst (wt_DeleteBlock tx bid x)"
| "tx_result tx x TxCommit = fst (wt_Commit tx x)"
| "tx_result tx x TxRollback = None"

text \<open>
  What the interface promises: staging does not touch the store; a commit and a rollback close the
  transaction, a rollback leaves the store alone; and a closed transaction refuses every call but
  the rollback and stays closed, without an effect on the store.
\<close>

locale write_transaction =
  fixes tx :: "'x WriteTransaction"
    and contents :: "'x \<Rightarrow> 's"
    and closed :: "'x \<Rightarrow> bool"
  assumes staging_keeps: "is_staging c \<Longrightarrow> contents (tx_step tx x c) = contents x"
    and staging_open: "is_staging c \<Longrightarrow> closed (tx_step tx x c) = closed x"
    and commit_closes: "closed (snd (wt_Commit tx x))"
    and rollback_closes: "closed (wt_Rollback tx x)"
    and rollback_keeps: "contents (wt_Rollback tx x) = contents x"
    and closed_commit: "closed x \<Longrightarrow> contents (snd (wt_Commit tx x)) = contents x"
    and closed_result: "tx_result tx x c = Some ErrTransactionClosed \<longleftrightarrow> closed x \<and> c \<noteq> TxRollback"
begin

lemma closed_step: "closed x \<Longrightarrow> closed (tx_step tx x c) \<and> contents (tx_step tx x c) = contents x"
  by (cases "is_staging c"; cases c)
    (simp_all add: staging_keeps staging_open commit_closes rollback_closes rollback_keeps closed_commit is_staging_def
      flip: tx_step.simps(1,2))

lemma closed_run: "closed x \<Longrightarrow> closed (run (tx_step tx) x cs) \<and> contents (run (tx_step tx) x cs) = contents x"
  by (induction cs arbitrary: x) (simp_all add: closed_step)

lemma closed_iff: "closed (run (tx_step tx) x cs) \<longleftrightarrow> closed x \<or> \<not> list_all is_staging cs"
proof (induction cs arbitrary: x)
  case (Cons c cs)
  have "closed (tx_step tx x c)" if "\<not> is_staging c"
    using that commit_closes rollback_closes by (cases c) (auto simp: is_staging_def)
  then show ?case
    using Cons.IH [of "tx_step tx x c"] by (cases "is_staging c") (simp_all add: staging_open)
qed simp

text \<open>The store changes at most once, at the first commit, if no rollback came before.\<close>

lemma store_changes_once:
  "contents (run (tx_step tx) x cs) =
     (case dropWhile is_staging cs of
        TxCommit # _ \<Rightarrow> contents (snd (wt_Commit tx (run (tx_step tx) x (takeWhile is_staging cs))))
      | _ \<Rightarrow> contents x)"
proof (induction cs arbitrary: x)
  case (Cons c cs)
  show ?case
  proof (cases "is_staging c")
    case True
    then show ?thesis
      using Cons.IH [of "tx_step tx x c"]
      by (cases "dropWhile is_staging cs"; cases "hd (dropWhile is_staging cs)")
        (simp_all add: staging_keeps del: dropWhile_eq_Nil_conv)
  next
    case False
    then show ?thesis
      using closed_run [OF commit_closes [of x], of cs] closed_run [OF rollback_closes [of x], of cs] rollback_keeps [of x]
      by (cases c) (auto simp: is_staging_def)
  qed
qed simp

end

lemma in_memory_simps [simp]:
  "snd (tx_step (in_memory store) x (TxWrite b)) = snd x" "snd (tx_step (in_memory store) x (TxDelete bid)) = snd x"
  "fst (tx_step (in_memory store) x (TxWrite b)) = stage_step (fst x) (SWrite b)"
  "fst (tx_step (in_memory store) x (TxDelete bid)) = stage_step (fst x) (SDelete bid)"
  "wt_Commit (in_memory store) x = tx_Commit store (fst x) (snd x)"
  "wt_Rollback (in_memory store) x = (tx_Rollback (fst x), snd x)"
  by (simp_all add: in_memory_def split: prod.splits)

interpretation buffered: write_transaction "in_memory store" snd "\<lambda>x. tx_done (fst x)"
proof unfold_locales
  fix c :: tx_call and x :: "InMemoryWriteTransaction \<times> 'a"
  assume c: "is_staging c"
  then show "snd (tx_step (in_memory store) x c) = snd x"
    by (cases c) (simp_all add: is_staging_def del: tx_step.simps)
  from c show "tx_done (fst (tx_step (in_memory store) x c)) = tx_done (fst x)"
    by (cases c) (simp_all add: is_staging_def tx_WriteBlock_def tx_DeleteBlock_def del: tx_step.simps)
next
  fix x :: "InMemoryWriteTransaction \<times> 'a"
  show "tx_done (fst (snd (wt_Commit (in_memory store) x)))"
    by (simp add: tx_Commit_def Let_def split: prod.split option.split)
  show "tx_done (fst x) \<Longrightarrow> snd (snd (wt_Commit (in_memory store) x)) = snd x"
    by (simp add: tx_Commit_def)
  show "tx_result (in_memory store) x c = Some ErrTransactionClosed \<longleftrightarrow> tx_done (fst x) \<and> c \<noteq> TxRollback" for c
    by (cases c) (auto simp: in_memory_def tx_WriteBlock_def tx_DeleteBlock_def tx_Commit_def Let_def split: prod.splits option.splits)
qed (simp_all add: tx_Rollback_def)

fun staged_as :: "tx_call \<Rightarrow> stage list" where
  "staged_as (TxWrite b) = [SWrite b]"
| "staged_as (TxDelete bid) = [SDelete bid]"
| "staged_as _ = []"

lemma staging_run:
  "list_all is_staging cs \<Longrightarrow>
   run (tx_step (in_memory store)) x cs = (run stage_step (fst x) (concat (map staged_as cs)), snd x)"
proof (induction cs arbitrary: x)
  case (Cons c cs)
  have "tx_step (in_memory store) x c = (run stage_step (fst x) (staged_as c), snd x)"
    using Cons.prems by (cases c) (auto simp: prod_eq_iff is_staging_def simp del: tx_step.simps)
  then show ?case
    using Cons by simp
qed simp


end
