(* ===== verification/Grim_Bridge.thy ===== *)
theory Grim_Bridge
  imports Grim_Memory Grim_Sha256
begin

text \<open>
  \<open>engine/bridge\<close>: the interface to the enclave, the pure Go fallback \<open>DefaultBridge\<close> with its key
  derivations, and the text encodings the bridge uses. HKDF is a third-party package: a parameter
  \<open>hkdf secret salt info n\<close>, the first \<open>n\<close> bytes read from the reader that \<open>hkdf.New\<close> returns, or the
  error of that read. The encoding \<open>base64.StdEncoding\<close> is the standard library's.
\<close>

type_synonym hkdf = "byte list \<Rightarrow> byte list \<Rightarrow> byte list \<Rightarrow> nat \<Rightarrow> go_error + byte list"

datatype bridge_error = CoordinateOffsetOutOfRange int | CoordinateHkdf go_error | WorkspaceHkdf go_error
  | EnclaveError go_error

section \<open>The Go fallback\<close>

definition GoSecureZero :: "addr \<Rightarrow> heap \<Rightarrow> heap" where
  "GoSecureZero b h = h\<lparr>h_mem := (h_mem h)(b := foldl (\<lambda>bs i. bs[i := 0]) (h_mem h b) [0..<length (h_mem h b)])\<rparr>"

text \<open>
  The loop that picks the bytes: offsets are signed 64-bit integers, and the first one outside the
  data ends the loop with an error.
\<close>

fun extract_bytes :: "byte list \<Rightarrow> 64 word list \<Rightarrow> bridge_error + byte list" where
  "extract_bytes entropyData [] = Inr []"
| "extract_bytes entropyData (off # offsets) =
     (if sint off < 0 \<or> int (length entropyData) \<le> sint off then Inl (CoordinateOffsetOutOfRange (sint off))
      else bindE (extract_bytes entropyData offsets) (\<lambda>extracted. Inr (entropyData ! nat (sint off) # extracted)))"

definition GoDeriveCoordinate :: "hkdf \<Rightarrow> byte list \<Rightarrow> 64 word list \<Rightarrow> bridge_error + byte list" where
  "GoDeriveCoordinate hkdf entropyData offsets =
     bindE (extract_bytes entropyData offsets) (\<lambda>extracted.
       case hkdf (sha256 extracted) [] (bytes_of ''grimlocker-coordinate-salt-v1'') 32 of
         Inl err \<Rightarrow> Inl (CoordinateHkdf err)
       | Inr key \<Rightarrow> Inr key)"

definition GoDeriveWorkspaceKey :: "hkdf \<Rightarrow> byte list \<Rightarrow> string \<Rightarrow> bridge_error + byte list" where
  "GoDeriveWorkspaceKey hkdf masterKey workspaceID =
     (case hkdf masterKey [] (bytes_of (''grimlocker-workspace-v1:'' @ workspaceID)) 32 of
        Inl err \<Rightarrow> Inl (WorkspaceHkdf err)
      | Inr key \<Rightarrow> Inr key)"

section \<open>The bridge\<close>

text \<open>An enclave with state \<open>'s\<close>; \<open>nil\<close> slices are empty lists.\<close>

record 's RustBridge =
  rb_InitCore :: "'s \<Rightarrow> bridge_error option \<times> 's"
  rb_ShutdownCore :: "'s \<Rightarrow> 's"
  rb_SecureZero :: "addr \<Rightarrow> heap \<Rightarrow> heap"
  rb_DeriveCoordinate :: "byte list \<Rightarrow> 64 word list \<Rightarrow> bridge_error + byte list"
  rb_DeriveWorkspaceKey :: "byte list \<Rightarrow> string \<Rightarrow> bridge_error + byte list"
  rb_MVKStore :: "byte list \<Rightarrow> 's \<Rightarrow> (bridge_error + string) \<times> 's"
  rb_MVKRevoke :: "string \<Rightarrow> 's \<Rightarrow> 's"
  rb_EncryptHandle :: "string \<Rightarrow> byte list \<Rightarrow> byte list \<Rightarrow> 's \<Rightarrow> (bridge_error + byte list) \<times> 's"
  rb_DecryptHandle :: "string \<Rightarrow> byte list \<Rightarrow> byte list \<Rightarrow> 's \<Rightarrow> (bridge_error + byte list) \<times> 's"
  rb_GenerateEntropyFile :: "string \<Rightarrow> int \<Rightarrow> 's \<Rightarrow> bridge_error option \<times> 's"

definition DefaultBridge :: "hkdf \<Rightarrow> 's RustBridge" where
  "DefaultBridge hkdf =
     \<lparr>rb_InitCore = (\<lambda>s. (None, s)),
      rb_ShutdownCore = (\<lambda>s. s),
      rb_SecureZero = GoSecureZero,
      rb_DeriveCoordinate = GoDeriveCoordinate hkdf,
      rb_DeriveWorkspaceKey = GoDeriveWorkspaceKey hkdf,
      rb_MVKStore = (\<lambda>mvk s. (Inr '''', s)),
      rb_MVKRevoke = (\<lambda>handle s. s),
      rb_EncryptHandle = (\<lambda>handle plaintext aad s. (Inr [], s)),
      rb_DecryptHandle = (\<lambda>handle ciphertext aad s. (Inr [], s)),
      rb_GenerateEntropyFile = (\<lambda>path lineCount s. (None, s))\<rparr>"

section \<open>Text encodings\<close>

fun json_offsets_loop :: "bool \<Rightarrow> 64 word list \<Rightarrow> string" where
  "json_offsets_loop first [] = ''''"
| "json_offsets_loop first (off # offsets) =
     (if first then '''' else '','') @ show_int (sint off) @ json_offsets_loop False offsets"

definition EncodeOffsetsJSON :: "64 word list \<Rightarrow> string" where
  "EncodeOffsetsJSON offsets = ''['' @ json_offsets_loop True offsets @ '']''"

definition base64_alphabet :: string where
  "base64_alphabet = ''ABCDEFGHIJKLMNOPQRSTUVWXYZabcdefghijklmnopqrstuvwxyz0123456789+/''"

definition base64_char :: "nat \<Rightarrow> char" where
  "base64_char n = base64_alphabet ! n"

definition base64_value :: "char \<Rightarrow> nat option" where
  "base64_value c = map_of (zip base64_alphabet [0..<64]) c"

fun Base64Encode :: "byte list \<Rightarrow> string" where
  "Base64Encode [] = ''''"
| "Base64Encode [a] =
     [base64_char (unat a div 4), base64_char (unat a mod 4 * 16), CHR ''='', CHR ''='']"
| "Base64Encode [a, b] =
     [base64_char (unat a div 4), base64_char (unat a mod 4 * 16 + unat b div 16),
      base64_char (unat b mod 16 * 4), CHR ''='']"
| "Base64Encode (a # b # c # rest) =
     [base64_char (unat a div 4), base64_char (unat a mod 4 * 16 + unat b div 16),
      base64_char (unat b mod 16 * 4 + unat c div 64), base64_char (unat c mod 64)] @ Base64Encode rest"

text \<open>
  The decoder drops line breaks and reads groups of four characters; padding may only end the
  last group. \<open>None\<close> stands for \<open>CorruptInputError\<close>.
\<close>

fun base64_groups :: "string \<Rightarrow> byte list option" where
  "base64_groups [] = Some []"
| "base64_groups (w # x # y # z # rest) =
     (case (base64_value w, base64_value x) of
        (Some v0, Some v1) \<Rightarrow>
          (case base64_value y of
             Some v2 \<Rightarrow>
               (case base64_value z of
                  Some v3 \<Rightarrow>
                    map_option ((@) [of_nat (v0 * 4 + v1 div 16), of_nat (v1 mod 16 * 16 + v2 div 4), of_nat (v2 mod 4 * 64 + v3)])
                      (base64_groups rest)
                | None \<Rightarrow>
                    (if z = CHR ''='' \<and> rest = [] then Some [of_nat (v0 * 4 + v1 div 16), of_nat (v1 mod 16 * 16 + v2 div 4)]
                     else None))
           | None \<Rightarrow>
               (if y = CHR ''='' \<and> z = CHR ''='' \<and> rest = [] then Some [of_nat (v0 * 4 + v1 div 16)] else None))
      | _ \<Rightarrow> None)"
| "base64_groups _ = None"

definition Base64Decode :: "string \<Rightarrow> byte list option" where
  "Base64Decode s = base64_groups (filter (\<lambda>c. c \<noteq> CHR 0x0A \<and> c \<noteq> CHR 0x0D) s)"

section \<open>Lemmas\<close>

lemma extract_bytes_eq:
  "extract_bytes d offs = Inr bs \<longleftrightarrow>
     (\<forall>off \<in> set offs. 0 \<le> sint off \<and> sint off < int (length d)) \<and> bs = map (\<lambda>off. d ! nat (sint off)) offs"
  by (induction offs arbitrary: bs) (auto simp: bindE_eq_Inr)

lemma base64_table: "\<forall>n \<in> set [0..<64]. base64_value (base64_char n) = Some n \<and>
    base64_char n \<noteq> CHR 0x0A \<and> base64_char n \<noteq> CHR 0x0D"
  by code_simp

lemma base64_char_simps [simp]:
  assumes "n < 64"
  shows "base64_value (base64_char n) = Some n" "base64_char n \<noteq> CHR 0x0A" "base64_char n \<noteq> CHR 0x0D"
  using base64_table assms by auto

lemma base64_pad [simp]: "base64_value CHR ''='' = None"
  by code_simp

lemma byte_bounds [simp]:
  "unat (b :: byte) div 4 < 64" "unat b mod 16 * 4 < 64" "unat b div 64 < 4" "unat b div 16 < 16" "unat b mod 4 * 16 < 64"
proof -
  have "unat b < 256"
    using unsigned_less [of b] by simp
  then show "unat b div 4 < 64" "unat b div 64 < 4" "unat b div 16 < 16"
    by (simp_all add: less_mult_imp_div_less)
  show "unat b mod 16 * 4 < 64" "unat b mod 4 * 16 < 64"
    using mod_less_divisor [of 16 "unat b"] mod_less_divisor [of 4 "unat b"] by linarith+
qed

lemma join_digits:
  fixes q r :: nat
  assumes "q < n"
  shows "(r * n + q) div n = r" "(r * n + q) mod n = q"
  using assms by simp_all

lemma base64_joined [simp]:
  "unat (a :: byte) mod 4 * 16 + unat (b :: byte) div 16 < 64" "unat b mod 16 * 4 + unat (c :: byte) div 64 < 64"
  using byte_bounds(4) [of b] byte_bounds(3) [of c] mod_less_divisor [of 16 "unat b"] mod_less_divisor [of 4 "unat a"]
  by linarith+

lemma base64_regroup [simp]:
  "(unat (a :: byte) mod 4 * 16 + unat (b :: byte) div 16) div 16 = unat a mod 4"
  "(unat a mod 4 * 16 + unat b div 16) mod 16 = unat b div 16"
  "(unat b mod 16 * 4 + unat (c :: byte) div 64) div 4 = unat b mod 16"
  "(unat b mod 16 * 4 + unat c div 64) mod 4 = unat c div 64"
  by (rule join_digits byte_bounds)+

lemma byte_join [simp]: "(of_nat (unat (b :: byte) div n * n + unat b mod n) :: byte) = b"
  by (simp only: div_mult_mod_eq of_nat_unat) simp

lemma base64_groups_encode: "base64_groups (Base64Encode bs) = Some bs"
proof (induction bs rule: Base64Encode.induct)
  case (4 a b c rest)
  then show ?case
    by (simp del: of_nat_add of_nat_mult of_nat_div of_nat_mod)
qed (simp_all del: of_nat_add of_nat_mult)

lemma base64_no_breaks: "filter (\<lambda>c. c \<noteq> CHR 0x0A \<and> c \<noteq> CHR 0x0D) (Base64Encode bs) = Base64Encode bs"
  by (induction bs rule: Base64Encode.induct) simp_all

text \<open>Decimal numbers contain neither separators nor signs, and can be read back.\<close>

definition sep :: "char \<Rightarrow> bool" where
  "sep c \<longleftrightarrow> c = CHR '','' \<or> c = CHR '']''"

lemma show_nat_chars: "c \<in> set (show_nat n) \<Longrightarrow> c \<noteq> CHR ''-'' \<and> \<not> sep c"
  using show_nat_is_digit [of c n] by (auto simp: is_digit_def sep_def)

lemma show_int_inject: "show_int i = show_int j \<longleftrightarrow> i = j"
proof -
  have "show_nat n \<noteq> CHR ''-'' # xs" for n xs
    using show_nat_chars [of "CHR ''-''" n] by (metis list.set_intros(1))
  moreover have "CHR ''-'' # xs \<noteq> show_nat n" for n xs
    using show_nat_chars [of "CHR ''-''" n] by (metis list.set_intros(1))
  ultimately show ?thesis
    by (auto simp: show_int_def show_nat_inject)
qed

lemma show_int_chars: "c \<in> set (show_int i) \<Longrightarrow> \<not> sep c"
  using show_nat_chars [of c "nat i"] show_nat_chars [of c "nat (- i)"]
  by (auto simp: show_int_def sep_def split: if_splits)

lemma show_int_until:
  assumes "rest = [] \<or> sep (hd rest)"
  shows "takeWhile (\<lambda>c. \<not> sep c) (show_int i @ rest) = show_int i"
    "dropWhile (\<lambda>c. \<not> sep c) (show_int i @ rest) = rest"
proof -
  have "\<forall>c \<in> set (show_int i). \<not> sep c"
    using show_int_chars by blast
  then show "takeWhile (\<lambda>c. \<not> sep c) (show_int i @ rest) = show_int i"
    "dropWhile (\<lambda>c. \<not> sep c) (show_int i @ rest) = rest"
    using assms by (cases rest; simp)+
qed

lemma show_int_Nil [simp]: "show_int i \<noteq> []"
  by (simp add: show_int_def)

lemma json_tail_inject:
  "json_offsets_loop False xs @ '']'' = json_offsets_loop False ys @ '']'' \<Longrightarrow> xs = ys"
proof (induction xs arbitrary: ys)
  case Nil
  then show ?case
    by (cases ys) auto
next
  case (Cons x xs)
  have ends: "sep (hd (json_offsets_loop False zs @ '']''))" for zs
    by (cases zs) (auto simp: sep_def)
  obtain y ys' where ys: "ys = y # ys'"
    using Cons.prems by (cases ys) auto
  then have eq: "show_int (sint x) @ (json_offsets_loop False xs @ '']'') = show_int (sint y) @ (json_offsets_loop False ys' @ '']'')"
    using Cons.prems by simp
  then have "show_int (sint x) = show_int (sint y)" "json_offsets_loop False xs @ '']'' = json_offsets_loop False ys' @ '']''"
    using show_int_until [OF disjI2 [OF ends]] by metis+
  then show ?case
    using Cons.IH ys by (simp add: show_int_inject signed_word_eqI)
qed

section \<open>Properties\<close>

text \<open>
  The text encodings of the bridge lose nothing: every byte string is recovered from its base64
  text, also when line breaks are inserted into the text, and two different lists of offsets never
  have the same JSON text.
\<close>

theorem bridge_encodings_faithful:
  "Base64Decode (Base64Encode bs) = Some bs \<and>
   (filter (\<lambda>c. c \<noteq> CHR 0x0A \<and> c \<noteq> CHR 0x0D) s = Base64Encode bs \<longrightarrow> Base64Decode s = Some bs) \<and>
   (EncodeOffsetsJSON xs = EncodeOffsetsJSON ys \<longleftrightarrow> xs = ys)"
proof -
  have first_char: "hd (show_int i) \<noteq> CHR '']''" for i
    using show_int_chars [of "hd (show_int i)" i] by (auto simp: sep_def)
  have "xs = ys" if "json_offsets_loop True xs @ '']'' = json_offsets_loop True ys @ '']''"
  proof (cases xs; cases ys)
    fix x xs' y ys' assume *: "xs = x # xs'" "ys = y # ys'"
    then have "json_offsets_loop False xs @ '']'' = json_offsets_loop False ys @ '']''"
      using that by simp
    then show ?thesis by (rule json_tail_inject)
  next
    fix x xs' assume "xs = x # xs'" "ys = []"
    then show ?thesis
      using that first_char [of "sint x"] by (cases "show_int (sint x)") auto
  next
    fix y ys' assume "ys = y # ys'" "xs = []"
    then show ?thesis
      using that first_char [of "sint y"] by (cases "show_int (sint y)") auto
  qed simp
  then show ?thesis
    by (auto simp: Base64Decode_def base64_no_breaks base64_groups_encode EncodeOffsetsJSON_def)
qed

theorem bridge_encodings_faithful_witness:
  "Base64Decode (''aGk='' @ [CHR 0x0A]) = Some (bytes_of ''hi'')"
proof -
  have "Base64Encode (bytes_of ''hi'') = ''aGk=''"
    by code_simp
  then show ?thesis
    using bridge_encodings_faithful [of "bytes_of ''hi''" "''aGk='' @ [CHR 0x0A]"] by simp
qed

text \<open>
  The fallback derivation of a coordinate key succeeds exactly when every offset lies inside the
  entropy data and the HKDF read succeeds, and then the key is the HKDF output for the SHA-256 digest
  of the selected bytes; an empty list of offsets is accepted.
\<close>

theorem GoDeriveCoordinate_iff:
  "GoDeriveCoordinate hkdf d offs = Inr key \<longleftrightarrow>
     list_all (\<lambda>off. 0 \<le> sint off \<and> sint off < int (length d)) offs \<and>
     hkdf (sha256 (map (\<lambda>off. d ! nat (sint off)) offs)) [] (bytes_of ''grimlocker-coordinate-salt-v1'') 32 = Inr key"
  by (auto simp: GoDeriveCoordinate_def bindE_eq_Inr extract_bytes_eq list_all_iff split: sum.splits)

text \<open>
  With the default bridge, wiping a buffer leaves only zeros in it and touches no other buffer;
  the handle operations report success without doing the work: every master key is stored under the
  empty handle, and every encryption returns the empty ciphertext, whatever the plaintext.
\<close>

theorem default_bridge_stubs:
  "h_mem (rb_SecureZero (DefaultBridge hkdf :: 's RustBridge) a h) = (h_mem h)(a := replicate (length (h_mem h a)) 0) \<and>
   fst (rb_MVKStore (DefaultBridge hkdf :: 's RustBridge) mvk s) = Inr '''' \<and>
   fst (rb_EncryptHandle (DefaultBridge hkdf :: 's RustBridge) handle plaintext aad s) = Inr [] \<and>
   fst (rb_DecryptHandle (DefaultBridge hkdf :: 's RustBridge) handle (plaintext @ tag) aad s) = Inr []"
  by (simp add: DefaultBridge_def GoSecureZero_def zeroize_bytes_eq [unfolded zeroize_bytes_def])

end
