(* ===== verification/Grim_Crypto.thy ===== *)
theory Grim_Crypto
  imports Grim_Bridge
begin

text \<open>
  \<open>engine/crypto\<close>, the stateless provider: ChaCha20-Poly1305, Argon2id, HKDF and the derivation of
  the master vault key from the entropy data; the post-quantum placeholder. ChaCha20-Poly1305,
  Argon2id and HKDF are third-party packages and parameters of the definitions; HMAC is the standard
  library's and is defined over the model of SHA-256.
\<close>

section \<open>Types\<close>

record KDFOptions =
  kdf_Time :: "32 word"
  kdf_Memory :: "32 word"
  kdf_Threads :: byte
  kdf_KeyLen :: "32 word"
  kdf_Salt :: "byte list"

definition DefaultKDFOptions :: KDFOptions where
  "DefaultKDFOptions = \<lparr>kdf_Time = 4, kdf_Memory = 131072, kdf_Threads = 2, kdf_KeyLen = 32, kdf_Salt = []\<rparr>"

datatype crypto_error =
    SaltRequired
  | ChachaInvalidKey | ChachaInvalidNonce | ChachaCreate go_error | ChachaAuthenticationFailed
  | NonceError go_error
  | MVKOffsetOutOfBounds int nat
  | InvalidFileSize int | CoordinatesHkdf go_error | CoordinatesIndexPanic
  | KeyEmpty | KeyLengthInvalid nat | CipherCreation go_error
  | HkdfKeyLen | HkdfExpand go_error
  | PQCNotImplemented

text \<open>\<open>chacha20poly1305.New\<close> and the two methods of the cipher it returns.\<close>

record aead =
  Seal :: "byte list \<Rightarrow> byte list \<Rightarrow> byte list \<Rightarrow> byte list"
  Open :: "byte list \<Rightarrow> byte list \<Rightarrow> byte list \<Rightarrow> go_error + byte list"

type_synonym chacha = "byte list \<Rightarrow> go_error + aead"

section \<open>ChaCha20-Poly1305\<close>

definition Encrypt ::
  "chacha \<Rightarrow> byte list \<Rightarrow> byte list \<Rightarrow> byte list \<Rightarrow> byte list \<Rightarrow> crypto_error + byte list" where
  "Encrypt chacha key nonce plaintext aad =
     (if length key \<noteq> 32 then Inl ChachaInvalidKey
      else if length nonce \<noteq> 12 then Inl ChachaInvalidNonce
      else case chacha key of
        Inl err \<Rightarrow> Inl (ChachaCreate err)
      | Inr cipher \<Rightarrow> Inr (Seal cipher nonce plaintext aad))"

definition Decrypt ::
  "chacha \<Rightarrow> byte list \<Rightarrow> byte list \<Rightarrow> byte list \<Rightarrow> byte list \<Rightarrow> crypto_error + byte list" where
  "Decrypt chacha key nonce ciphertext aad =
     (if length key \<noteq> 32 then Inl ChachaInvalidKey
      else if length nonce \<noteq> 12 then Inl ChachaInvalidNonce
      else case chacha key of
        Inl err \<Rightarrow> Inl (ChachaCreate err)
      | Inr cipher \<Rightarrow>
          (case Open cipher nonce ciphertext aad of
             Inl err \<Rightarrow> Inl ChachaAuthenticationFailed
           | Inr plaintext \<Rightarrow> Inr plaintext))"

definition NewNonce :: "go_error + byte list \<Rightarrow> crypto_error + byte list" where
  "NewNonce rnd =
     (case rnd of
        Inl err \<Rightarrow> Inl (NonceError err)
      | Inr b \<Rightarrow> Inr (copy_bytes (replicate 12 0) b))"

definition KeyLen :: nat where "KeyLen = 32"

definition ValidateKeyLength :: "byte list \<Rightarrow> crypto_error option" where
  "ValidateKeyLength key =
     (if length key = 0 then Some KeyEmpty
      else if length key \<noteq> KeyLen then Some (KeyLengthInvalid (length key))
      else None)"

definition ValidateAndNewCipher :: "chacha \<Rightarrow> byte list \<Rightarrow> crypto_error + aead" where
  "ValidateAndNewCipher chacha key =
     (case ValidateKeyLength key of
        Some err \<Rightarrow> Inl err
      | None \<Rightarrow> (case chacha key of Inl err \<Rightarrow> Inl (CipherCreation err) | Inr c \<Rightarrow> Inr c))"

section \<open>Key derivation\<close>

text \<open>\<open>argon2.IDKey(password, salt, time, memory, threads, keyLen)\<close>\<close>

type_synonym argon2 = "byte list \<Rightarrow> byte list \<Rightarrow> 32 word \<Rightarrow> 32 word \<Rightarrow> byte \<Rightarrow> 32 word \<Rightarrow> byte list"

definition DeriveArgon2id :: "argon2 \<Rightarrow> byte list \<Rightarrow> KDFOptions \<Rightarrow> crypto_error + byte list" where
  "DeriveArgon2id IDKey password opts =
     (if length (kdf_Salt opts) = 0 then Inl SaltRequired
      else
        let opts = (if kdf_KeyLen opts = 0 then opts\<lparr>kdf_KeyLen := 32\<rparr> else opts);
            opts = (if kdf_Time opts = 0 then opts\<lparr>kdf_Time := kdf_Time DefaultKDFOptions\<rparr> else opts);
            opts = (if kdf_Memory opts = 0 then opts\<lparr>kdf_Memory := kdf_Memory DefaultKDFOptions\<rparr> else opts);
            opts = (if kdf_Threads opts = 0 then opts\<lparr>kdf_Threads := kdf_Threads DefaultKDFOptions\<rparr> else opts)
        in Inr (IDKey password (kdf_Salt opts) (kdf_Time opts) (kdf_Memory opts) (kdf_Threads opts) (kdf_KeyLen opts)))"

text \<open>\<open>crypto/hmac\<close> over SHA-256, with its 64-byte block.\<close>

definition hmac_sha256 :: "byte list \<Rightarrow> byte list \<Rightarrow> byte list" where
  "hmac_sha256 key msg =
     (let k = (if 64 < length key then sha256 key else key);
          k = k @ replicate (64 - length k) 0
      in sha256 (map (\<lambda>b. b XOR 0x5c) k @ sha256 (map (\<lambda>b. b XOR 0x36) k @ msg)))"

definition HMACKey :: "byte list \<Rightarrow> byte list" where
  "HMACKey mvk = copy_bytes (replicate 32 0) (hmac_sha256 mvk (bytes_of ''grimlocker-hmac-v1''))"

definition DeriveHKDF :: "hkdf \<Rightarrow> byte list \<Rightarrow> byte list \<Rightarrow> byte list \<Rightarrow> int \<Rightarrow> crypto_error + byte list" where
  "DeriveHKDF hkdf secret salt info keyLen =
     (if keyLen \<le> 0 then Inl HkdfKeyLen
      else case hkdf secret salt info (nat keyLen) of
        Inl err \<Rightarrow> Inl (HkdfExpand err)
      | Inr key \<Rightarrow> Inr key)"

section \<open>The master vault key\<close>

text \<open>
  The error path of \<open>DeriveXORAsMVK\<close> returns the partly filled array next to the error, as the
  code does. Offsets are signed 64-bit integers.
\<close>

fun mvk_loop ::
  "byte list \<Rightarrow> nat \<Rightarrow> 64 word list \<Rightarrow> byte list \<Rightarrow> byte list \<times> crypto_error option" where
  "mvk_loop entropyData i [] mvk = (mvk, None)"
| "mvk_loop entropyData i (off # offsets) mvk =
     (if sint off < 0 \<or> int (length entropyData) \<le> sint off
      then (mvk, Some (MVKOffsetOutOfBounds (sint off) (length entropyData)))
      else mvk_loop entropyData (i + 1) offsets (mvk[i := mvk ! i XOR entropyData ! nat (sint off)]))"

definition DeriveXORAsMVK :: "byte list \<Rightarrow> 64 word list \<Rightarrow> byte list \<times> crypto_error option" where
  "DeriveXORAsMVK entropyData offsets = mvk_loop entropyData 0 offsets (replicate 32 0)"

definition coordinate :: "byte list \<Rightarrow> 64 word \<Rightarrow> nat \<Rightarrow> 64 word option" where
  "coordinate buf fileSize i = map_option (\<lambda>val. ucast val mod fileSize) (u32_of (take 4 (drop (i * 4) buf)))"

definition DeriveCoordinateOffsets :: "hkdf \<Rightarrow> byte list \<Rightarrow> 64 word \<Rightarrow> crypto_error + 64 word list" where
  "DeriveCoordinateOffsets hkdf argonHash fileSize =
     (if sint fileSize \<le> 0 then Inl (InvalidFileSize (sint fileSize))
      else case hkdf argonHash [] (bytes_of ''grimlocker-coordinates-v1'') 128 of
        Inl err \<Rightarrow> Inl (CoordinatesHkdf err)
      | Inr okm \<Rightarrow>
          (let buf = copy_bytes (replicate 128 0) okm in
           case those (map (coordinate buf fileSize) [0..<32]) of
             None \<Rightarrow> Inl CoordinatesIndexPanic
           | Some offsets \<Rightarrow> Inr offsets))"

section \<open>The provider\<close>

record 's provider =
  p_rb :: "'s RustBridge"

definition Provider_New :: "'s RustBridge \<Rightarrow> 's provider" where
  "Provider_New rb = \<lparr>p_rb = rb\<rparr>"

definition Provider_Bridge :: "'s provider \<Rightarrow> 's RustBridge" where
  "Provider_Bridge p = p_rb p"

definition Provider_SecureZero :: "'s provider \<Rightarrow> addr \<Rightarrow> heap \<Rightarrow> heap" where
  "Provider_SecureZero p b h = rb_SecureZero (p_rb p) b h"

definition Provider_DeriveCoordinate :: "'s provider \<Rightarrow> byte list \<Rightarrow> 64 word list \<Rightarrow> bridge_error + byte list" where
  "Provider_DeriveCoordinate p entropyData offsets = rb_DeriveCoordinate (p_rb p) entropyData offsets"

definition Provider_DeriveWorkspaceKey :: "'s provider \<Rightarrow> byte list \<Rightarrow> string \<Rightarrow> bridge_error + byte list" where
  "Provider_DeriveWorkspaceKey p masterKey workspaceID = rb_DeriveWorkspaceKey (p_rb p) masterKey workspaceID"

section \<open>Post-quantum placeholder\<close>

type_synonym PQCAlgorithm = string

definition AlgoMLKEM768 :: PQCAlgorithm where "AlgoMLKEM768 = ''ML-KEM-768''"
definition AlgoMLDSA65 :: PQCAlgorithm where "AlgoMLDSA65 = ''ML-DSA-65''"
definition AlgoHybridX25519MLKEM :: PQCAlgorithm where "AlgoHybridX25519MLKEM = ''X25519+ML-KEM-768''"
definition AlgoChaCha20Poly1305 :: PQCAlgorithm where "AlgoChaCha20Poly1305 = ''ChaCha20-Poly1305''"

datatype PQCSafetyLevel = PQCSafetyClassical | PQCSafetyQuantumReduced | PQCSafetyQuantumFull

record PQCStatus =
  SymmetricAlgo :: PQCAlgorithm
  SymmetricSafety :: PQCSafetyLevel
  KEMAvailable :: bool
  SigAvailable :: bool
  HybridMode :: bool
  Notes :: "string list"

definition CurrentPQCStatus :: PQCStatus where
  "CurrentPQCStatus =
     \<lparr>SymmetricAlgo = AlgoChaCha20Poly1305,
      SymmetricSafety = PQCSafetyQuantumReduced,
      KEMAvailable = False,
      SigAvailable = False,
      HybridMode = False,
      Notes =
        [''ChaCha20-Poly1305 with 256-bit keys is quantum-safe for symmetric operations '' @
           ''(Grover'' @ [CHR 0x27] @ ''s algorithm reduces effective strength to 128 bits '' @ em_dash @ '' still secure).'',
         ''Key encapsulation (ML-KEM / CRYSTALS-Kyber) is not yet integrated. '' @
           ''When available, enable HybridMode for X25519 + ML-KEM key agreement.'',
         ''Signature scheme (ML-DSA / CRYSTALS-Dilithium) is not yet integrated.'',
         ''Migration path: implement PQCProvider interface and inject via SetPQCProvider().'']\<rparr>"

record PQCProvider =
  GenerateKEMKeyPair :: "crypto_error + byte list \<times> byte list"
  Encapsulate :: "byte list \<Rightarrow> crypto_error + byte list \<times> byte list"
  Decapsulate :: "byte list \<Rightarrow> byte list \<Rightarrow> crypto_error + byte list"
  Algorithm :: PQCAlgorithm

definition notImplementedPQCProvider :: PQCProvider where
  "notImplementedPQCProvider =
     \<lparr>GenerateKEMKeyPair = Inl PQCNotImplemented,
      Encapsulate = (\<lambda>_. Inl PQCNotImplemented),
      Decapsulate = (\<lambda>_ _. Inl PQCNotImplemented),
      Algorithm = ''''\<rparr>"

definition DefaultPQCProvider :: PQCProvider where
  "DefaultPQCProvider = notImplementedPQCProvider"

section \<open>Lemmas\<close>

lemma those_map_Some: "(\<And>x. x \<in> set xs \<Longrightarrow> f x = Some (g x)) \<Longrightarrow> those (map f xs) = Some (map g xs)"
  by (induction xs) auto

text \<open>The loop leaves the first \<open>i\<close> bytes alone and replaces the zeros behind them.\<close>

lemma mvk_loop_ok:
  assumes "\<forall>off \<in> set offs. 0 \<le> sint off \<and> sint off < int (length d)"
    and "length pre + length offs = n"
  shows "mvk_loop d (length pre) offs (pre @ replicate (length offs) 0) = (pre @ map (\<lambda>off. d ! nat (sint off)) offs, None)"
  using assms
proof (induction offs arbitrary: pre)
  case (Cons off offs)
  then show ?case
    using Cons.IH [of "pre @ [d ! nat (sint off)]"] by (simp add: list_update_append nth_append)
qed simp

lemma mvk_loop_error:
  "snd (mvk_loop d i offs mvk) =
     map_option (\<lambda>off. MVKOffsetOutOfBounds (sint off) (length d))
       (find (\<lambda>off. sint off < 0 \<or> int (length d) \<le> sint off) offs)"
  by (induction offs arbitrary: i mvk) auto

lemma sint_small: "x < 2 ^ 63 \<Longrightarrow> sint (of_nat x :: 64 word) = int x"
  by (simp add: signed_of_nat signed_take_bit_int_eq_self)

lemma ucast_mod_size:
  fixes val :: "32 word"
  assumes "0 < n" "n < 2 ^ 63"
  shows "(ucast val mod of_nat n :: 64 word) = of_nat (unat val mod n)"
proof -
  have "unat (of_nat n :: 64 word) = n"
    using assms by (simp add: unat_of_nat)
  moreover have "unat (ucast val :: 64 word) = unat val"
  proof -
    have "unat val < 2 ^ 32"
      using unsigned_less [of val] by simp
    then show ?thesis
      by (simp add: unsigned_ucast_eq take_bit_nat_eq_self)
  qed
  ultimately show ?thesis
    by (simp add: word_arith_nat_mod)
qed


lemma coordinate_chunk:
  assumes "length okm = 128" "0 < n" "n < 2 ^ 63" "i < 32"
  shows "coordinate okm (of_nat n) i = Some (of_nat (unat (the (u32_of (drop (i * 4) okm))) mod n))"
proof -
  have "4 \<le> length (drop (i * 4) okm)"
    using assms by simp
  then obtain a b c e rest where "drop (i * 4) okm = a # b # c # e # rest"
    by (metis (no_types, lifting) One_nat_def Suc_le_length_iff numeral_eq_Suc pred_numeral_simps(2) pred_numeral_simps(3) semiring_norm(26) semiring_norm(27) semiring_norm(28))
  then show ?thesis
    using assms by (simp add: coordinate_def ucast_mod_size)
qed

section \<open>Properties\<close>

text \<open>
  C20. The master vault key exists for every vault: for entropy data of any size from one byte up to
  the range of the file size, and HKDF output of the requested length, the derived 32 offsets all lie
  inside the data and deriving the key from them never fails. Byte i of the key is the byte of the
  data at position (i-th big-endian 32-bit word of the HKDF output) modulo the size: the key is a
  selection of single bytes of the file, not a combination of several.
\<close>

theorem mvk_derivation:
  assumes "hkdf argonHash [] (bytes_of ''grimlocker-coordinates-v1'') 128 = Inr okm" "length okm = 128"
    and "d \<noteq> []" "length d < 2 ^ 63"
  shows "\<exists>offs. DeriveCoordinateOffsets hkdf argonHash (of_nat (length d)) = Inr offs \<and>
    list_all (\<lambda>off. 0 \<le> sint off \<and> sint off < int (length d)) offs \<and>
    DeriveXORAsMVK d offs =
      (map (\<lambda>i. d ! (unat (the (u32_of (drop (i * 4) okm))) mod length d)) [0..<32], None)"
proof -
  define offs :: "64 word list" where
    "offs = map (\<lambda>i. of_nat (unat (the (u32_of (drop (i * 4) okm))) mod length d)) [0..<32]"
  have pos: "0 < length d"
    using assms(3) by simp
  have sints: "sint (of_nat (x mod length d) :: 64 word) = int (x mod length d)" for x
    using sint_small [of "x mod length d"] assms(4) pos mod_less_divisor [of "length d" x] by linarith
  have "those (map (coordinate okm (of_nat (length d))) [0..<32]) = Some offs"
    unfolding offs_def by (rule those_map_Some) (use coordinate_chunk assms(2,4) pos in auto)
  then have "DeriveCoordinateOffsets hkdf argonHash (of_nat (length d)) = Inr offs"
    using assms pos by (simp add: DeriveCoordinateOffsets_def sint_small Let_def)
  moreover have bounds: "\<forall>off \<in> set offs. 0 \<le> sint off \<and> sint off < int (length d)"
    using pos by (auto simp: offs_def sints)
  moreover have "DeriveXORAsMVK d offs = (map (\<lambda>off. d ! nat (sint off)) offs, None)"
    using mvk_loop_ok [OF bounds, of "[]"] by (simp add: DeriveXORAsMVK_def offs_def)
  ultimately show ?thesis
    by (auto simp: list_all_iff offs_def sints intro!: exI [of _ offs])
qed

theorem mvk_derivation_witness:
  "DeriveCoordinateOffsets (\<lambda>_ _ _ n. Inr (replicate n 1)) [7] 3 = Inr (replicate 32 1) \<and>
   DeriveXORAsMVK [10, 20, 30] (replicate 32 1) = (replicate 32 20, None)"
proof -
  have word: "unat (the (u32_of (replicate (128 - i * 4) 1))) mod 3 = 1" if "i < 32" for i
  proof -
    have "128 - i * 4 = Suc (Suc (Suc (Suc (124 - i * 4))))"
      using that by simp
    then show ?thesis
      by simp
  qed
  have offs: "DeriveCoordinateOffsets (\<lambda>_ _ _ n. Inr (replicate n 1)) [7] 3 = Inr (replicate 32 1)"
    by code_simp
  moreover obtain offs where "DeriveCoordinateOffsets (\<lambda>_ _ _ n. Inr (replicate n 1)) [7] 3 = Inr offs"
    "DeriveXORAsMVK [10, 20, 30] offs = (map (\<lambda>i. [10, 20, 30] ! (unat (the (u32_of (drop (i * 4) (replicate 128 1)))) mod 3)) [0..<32], None)"
    using mvk_derivation [of "\<lambda>_ _ _ n. Inr (replicate n 1)" "[7]" "replicate 128 1" "[10, 20, 30]"] by auto
  moreover have "map (\<lambda>i. [10, 20, 30] ! (unat (the (u32_of (drop (i * 4) (replicate 128 1)))) mod 3)) [0..<32] = replicate 32 (20 :: byte)"
    by (rule replicate_eqI) (auto simp: word)
  ultimately show ?thesis
    by simp
qed


text \<open>
  The vault key derivation rejects exactly the offset lists that leave the data: it reports the
  first offset that is negative or not below the size, and otherwise the 32 bytes it returns are
  those at the given offsets, in order.
\<close>

theorem DeriveXORAsMVK_spec:
  assumes "length offs = 32"
  shows "snd (DeriveXORAsMVK d offs) =
      map_option (\<lambda>off. MVKOffsetOutOfBounds (sint off) (length d))
        (find (\<lambda>off. sint off < 0 \<or> int (length d) \<le> sint off) offs) \<and>
    (snd (DeriveXORAsMVK d offs) = None \<longrightarrow> fst (DeriveXORAsMVK d offs) = map (\<lambda>off. d ! nat (sint off)) offs)"
proof (cases "\<forall>off \<in> set offs. 0 \<le> sint off \<and> sint off < int (length d)")
  case True
  then show ?thesis
    using mvk_loop_ok [OF True, of "[]"] assms
    by (simp add: DeriveXORAsMVK_def mvk_loop_error) (metis (no_types, lifting) find_None_iff linorder_not_less)
next
  case False
  then show ?thesis
    using mvk_loop_error [of d 0 offs "replicate 32 0"] by (fastforce simp: DeriveXORAsMVK_def find_None_iff)
qed

theorem DeriveXORAsMVK_spec_witness:
  "DeriveXORAsMVK [10, 20, 30] (replicate 32 2) = (replicate 32 30, None)"
  using DeriveXORAsMVK_spec [of "replicate 32 2" "[10, 20, 30]"]
  by (simp add: find_None_iff prod_eq_iff)

text \<open>
  The documented behaviour of \<open>chacha20poly1305\<close>: every 32-byte key gives a cipher, and the cipher
  opens what it sealed under the same 12-byte nonce and associated data.
\<close>

definition chacha_laws :: "chacha \<Rightarrow> bool" where
  "chacha_laws chacha \<longleftrightarrow>
     (\<forall>key. length key = 32 \<longrightarrow> (\<exists>c. chacha key = Inr c \<and>
        (\<forall>nonce pt aad. length nonce = 12 \<longrightarrow> Open c nonce (Seal c nonce pt aad) aad = Inr pt)))"

text \<open>
  What the engine encrypts it can decrypt: with a cipher that opens what it sealed, a 32-byte key
  and a 12-byte nonce, decrypting the ciphertext with the same key, nonce and associated data returns
  the plaintext. Any other key or nonce length is refused by both operations, before the cipher is
  called.
\<close>

theorem encrypt_decrypt:
  assumes "chacha_laws chacha"
  shows "(if length key = 32 \<and> length nonce = 12
      then \<exists>ct. Encrypt chacha key nonce pt aad = Inr ct \<and> Decrypt chacha key nonce ct aad = Inr pt
      else Encrypt chacha key nonce pt aad = Inl (if length key = 32 then ChachaInvalidNonce else ChachaInvalidKey) \<and>
        Decrypt chacha key nonce ct2 aad = Inl (if length key = 32 then ChachaInvalidNonce else ChachaInvalidKey))"
  using assms by (fastforce simp: chacha_laws_def Encrypt_def Decrypt_def)

theorem encrypt_decrypt_witness:
  "\<exists>(chacha :: chacha) ct. Encrypt chacha (replicate 32 1) (replicate 12 2) [3, 4] [] = Inr ct \<and> ct \<noteq> [3, 4] \<and>
     Decrypt chacha (replicate 32 1) (replicate 12 2) ct [] = Inr [3, 4]"
proof -
  define chacha :: chacha where
    "chacha key = Inr \<lparr>Seal = (\<lambda>nonce pt aad. map (\<lambda>b. b XOR hd key) pt @ replicate 16 0),
       Open = (\<lambda>nonce ct aad. Inr (map (\<lambda>b. b XOR hd key) (take (length ct - 16) ct)))\<rparr>" for key
  have "chacha_laws chacha"
    by (simp add: chacha_laws_def chacha_def comp_def xor.assoc)
  moreover have "Encrypt chacha (replicate 32 1) (replicate 12 2) [3, 4] [] \<noteq> Inr [3, 4]"
    by (simp add: Encrypt_def chacha_def)
  ultimately show ?thesis
    using encrypt_decrypt [of chacha "replicate 32 1" "replicate 12 2" "[3, 4]" "[]"] by auto
qed

text \<open>
  Argon2id is never called with parameters it rejects: without a salt the derivation fails, and
  with one the iteration count, the memory, the threads and the key length given to the hash are the
  requested ones where these are positive and 4, 128 MiB, 2 and 32 where they are zero, so all of
  them are positive.
\<close>

theorem argon2_parameters:
  "(kdf_Salt opts = [] \<longrightarrow> DeriveArgon2id IDKey pw opts = Inl SaltRequired) \<and>
   (kdf_Salt opts \<noteq> [] \<longrightarrow>
     (\<exists>t m p n. DeriveArgon2id IDKey pw opts = Inr (IDKey pw (kdf_Salt opts) t m p n) \<and>
        0 < t \<and> 0 < m \<and> 0 < p \<and> 0 < n \<and>
        t = (if kdf_Time opts = 0 then 4 else kdf_Time opts) \<and>
        m = (if kdf_Memory opts = 0 then 128 * 1024 else kdf_Memory opts) \<and>
        p = (if kdf_Threads opts = 0 then 2 else kdf_Threads opts) \<and>
        n = (if kdf_KeyLen opts = 0 then 32 else kdf_KeyLen opts)))"
  by (simp add: DeriveArgon2id_def DefaultKDFOptions_def Let_def word_gt_0)

theorem argon2_parameters_witness:
  "DeriveArgon2id (\<lambda>pw salt t m p n. replicate (unat n) (of_nat (unat t))) [1] DefaultKDFOptions = Inl SaltRequired \<and>
   DeriveArgon2id (\<lambda>pw salt t m p n. replicate (unat n) (of_nat (unat t))) [1] (DefaultKDFOptions\<lparr>kdf_Salt := [9], kdf_Time := 0\<rparr>)
     = Inr (replicate 32 4)"
  using argon2_parameters [of DefaultKDFOptions "\<lambda>pw salt t m p n. replicate (unat n) (of_nat (unat t))" "[1]"]
    argon2_parameters [of "DefaultKDFOptions\<lparr>kdf_Salt := [9], kdf_Time := 0\<rparr>"
      "\<lambda>pw salt t m p n. replicate (unat n) (of_nat (unat t))" "[1]"]
  by (simp add: DefaultKDFOptions_def)

end
