(* ===== verification/Grim_Files.thy ===== *)
theory Grim_Files
  imports Grim_Errors Complex_Main
begin

text \<open>
  \<open>engine/crypto/shredder.go\<close> and \<open>entropy.go\<close>: the two loops that fill files with random data.
  The file at the given path is reached through calls that return an error or nil and change the
  state of the file system; it is opened with the flags and the mode of the code, and opening empties
  it only when it is opened for truncation. The random source is a function of the number of the draw
  and the requested length. The progress callback is modelled by the list of its calls.
\<close>

section \<open>The outside world\<close>

type_synonym rand = "nat \<Rightarrow> nat \<Rightarrow> go_error + byte list"

record 's WriteSeeker =
  ws_SeekStart :: "'s \<Rightarrow> go_error option \<times> 's"
  ws_Write :: "byte list \<Rightarrow> 's \<Rightarrow> go_error option \<times> 's"

datatype open_flag = O_CREATE | O_WRONLY | O_TRUNC

record 's os_file =
  os_OpenFile :: "open_flag list \<Rightarrow> nat \<Rightarrow> 's \<Rightarrow> go_error option \<times> 's"
  os_Write :: "byte list \<Rightarrow> 's \<Rightarrow> go_error option \<times> 's"
  os_Sync :: "'s \<Rightarrow> go_error option \<times> 's"
  os_Close :: "'s \<Rightarrow> 's"

section \<open>Shredding\<close>

definition shredPasses :: nat where "shredPasses = 7"
definition shredBufSize :: nat where "shredBufSize = 65536"

datatype shred_error = ShredSeek nat go_error | ShredRand nat go_error | ShredWrite nat go_error

text \<open>The inner loop of one pass; the result carries the number of draws made so far.\<close>

function shred_pass :: "rand \<Rightarrow> 's WriteSeeker \<Rightarrow> nat \<Rightarrow> int \<Rightarrow> nat \<Rightarrow> 's \<Rightarrow> shred_error option \<times> nat \<times> 's" where
  "shred_pass rand w pass remaining k s =
     (if remaining \<le> 0 then (None, k, s)
      else
        let chunk = int shredBufSize;
            chunk = (if remaining < chunk then remaining else chunk)
        in case rand k (nat chunk) of
             Inl err \<Rightarrow> (Some (ShredRand pass err), k + 1, s)
           | Inr buf \<Rightarrow>
               (case ws_Write w buf s of
                  (Some err, s') \<Rightarrow> (Some (ShredWrite pass err), k + 1, s')
                | (None, s') \<Rightarrow> shred_pass rand w pass (remaining - chunk) (k + 1) s'))"
  by pat_completeness auto
termination
  by (relation "measure (\<lambda>(rand, w, pass, remaining, k, s). nat remaining)") (auto simp: shredBufSize_def)

declare shred_pass.simps [simp del]

text \<open>The outer loop, counting the passes that are left.\<close>

fun shred_passes :: "rand \<Rightarrow> 's WriteSeeker \<Rightarrow> int \<Rightarrow> nat \<Rightarrow> nat \<Rightarrow> 's \<Rightarrow> shred_error option \<times> nat \<times> 's" where
  "shred_passes rand w fileSize 0 k s = (None, k, s)"
| "shred_passes rand w fileSize (Suc left) k s =
     (let pass = shredPasses - Suc left in
      case ws_SeekStart w s of
        (Some err, s') \<Rightarrow> (Some (ShredSeek pass err), k, s')
      | (None, s') \<Rightarrow>
          (case shred_pass rand w pass fileSize k s' of
             (Some err, k', s'') \<Rightarrow> (Some err, k', s'')
           | (None, k', s'') \<Rightarrow> shred_passes rand w fileSize left k' s''))"

definition Shred :: "rand \<Rightarrow> 's WriteSeeker \<Rightarrow> int \<Rightarrow> 's \<Rightarrow> shred_error option \<times> nat \<times> 's" where
  "Shred rand w fileSize s = shred_passes rand w fileSize shredPasses 0 s"

section \<open>The entropy file\<close>

definition totalSize :: nat where "totalSize = 2 * 1024 * 1024"
definition chunkSize :: nat where "chunkSize = 64 * 1024"

datatype entropy_error = EntropyOpen go_error | EntropyRead go_error | EntropyWrite go_error | EntropySync go_error

text \<open>
  The fraction is a quotient of two numbers of which the divisor is a power of two, so the
  floating-point value of the code is exact; it is kept as a rational.
\<close>

definition progress :: "nat \<Rightarrow> rat \<times> string" where
  "progress written = (of_nat written / of_nat totalSize,
     ''Generated '' @ show_nat written @ '' / '' @ show_nat totalSize @ '' bytes'')"

function entropy_loop ::
  "rand \<Rightarrow> 's os_file \<Rightarrow> nat \<Rightarrow> nat \<Rightarrow> (rat \<times> string) list \<Rightarrow> 's \<Rightarrow> entropy_error option \<times> (rat \<times> string) list \<times> 's" where
  "entropy_loop rand f written k calls s =
     (if written < totalSize then
        (case rand k chunkSize of
           Inl err \<Rightarrow> (Some (EntropyRead err), calls, s)
         | Inr buf \<Rightarrow>
             (let toWrite = totalSize - written;
                  toWrite = (if chunkSize < toWrite then chunkSize else toWrite)
              in case os_Write f (take toWrite buf) s of
                   (Some err, s') \<Rightarrow> (Some (EntropyWrite err), calls, s')
                 | (None, s') \<Rightarrow>
                     entropy_loop rand f (written + toWrite) (k + 1) (calls @ [progress (written + toWrite)]) s'))
      else (None, calls, s))"
  by pat_completeness auto
termination
  by (relation "measure (\<lambda>(rand, f, written, k, calls, s). totalSize - written)") (auto simp: chunkSize_def totalSize_def)

declare entropy_loop.simps [simp del]

definition GenerateEntropyFileWithProgress ::
  "rand \<Rightarrow> 's os_file \<Rightarrow> 's \<Rightarrow> entropy_error option \<times> (rat \<times> string) list \<times> 's" where
  "GenerateEntropyFileWithProgress rand f s =
     (case os_OpenFile f [O_CREATE, O_WRONLY, O_TRUNC] 384 s of
        (Some err, s') \<Rightarrow> (Some (EntropyOpen err), [], s')
      | (None, s') \<Rightarrow>
          (case entropy_loop rand f 0 0 [] s' of
             (Some err, calls, s'') \<Rightarrow> (Some err, calls, os_Close f s'')
           | (None, calls, s'') \<Rightarrow>
               (case os_Sync f s'' of
                  (Some err, s3) \<Rightarrow> (Some (EntropySync err), calls, os_Close f s3)
                | (None, s3) \<Rightarrow> (None, calls, os_Close f s3))))"

section \<open>Files\<close>

text \<open>The contents and the position of an open file, and what a write at the position does.\<close>

type_synonym file_view = "byte list \<times> nat"

definition write_at :: "byte list \<Rightarrow> file_view \<Rightarrow> file_view" where
  "write_at bs f = (case f of (c, p) \<Rightarrow> (take p c @ bs @ drop (p + length bs) c, p + length bs))"

definition rand_laws :: "rand \<Rightarrow> bool" where
  "rand_laws rand \<longleftrightarrow> (\<forall>k n bs. rand k n = Inr bs \<longrightarrow> length bs = n)"

definition seeker_laws :: "'s WriteSeeker \<Rightarrow> ('s \<Rightarrow> file_view) \<Rightarrow> bool" where
  "seeker_laws w view \<longleftrightarrow>
     (\<forall>s s'. ws_SeekStart w s = (None, s') \<longrightarrow> view s' = (fst (view s), 0)) \<and>
     (\<forall>bs s s'. ws_Write w bs s = (None, s') \<longrightarrow> view s' = write_at bs (view s))"

definition os_laws :: "'s os_file \<Rightarrow> ('s \<Rightarrow> file_view) \<Rightarrow> bool" where
  "os_laws f view \<longleftrightarrow>
     (\<forall>flags perm s s'. os_OpenFile f flags perm s = (None, s') \<longrightarrow>
        view s' = (if O_TRUNC \<in> set flags then [] else fst (view s), 0)) \<and>
     (\<forall>bs s s'. os_Write f bs s = (None, s') \<longrightarrow> view s' = write_at bs (view s)) \<and>
     (\<forall>s. view (snd (os_Sync f s)) = view s) \<and> (\<forall>s. view (os_Close f s) = view s)"

text \<open>\<open>n\<close> random bytes drawn in blocks of 64 KiB, from draw \<open>k\<close> on.\<close>

function draws :: "rand \<Rightarrow> nat \<Rightarrow> nat \<Rightarrow> byte list" where
  "draws rand k n =
     (if n = 0 then []
      else (case rand k (min n 65536) of Inl err \<Rightarrow> [] | Inr bs \<Rightarrow> bs) @ draws rand (k + 1) (n - min n 65536))"
  by pat_completeness auto
termination
  by (relation "measure (\<lambda>(rand, k, n). n)") auto

declare draws.simps [simp del]

definition blocks :: "nat \<Rightarrow> nat" where
  "blocks n = (n + 65535) div 65536"


section \<open>What one pass writes\<close>

lemma blocks_step: "0 < n \<Longrightarrow> blocks n = Suc (blocks (n - min n 65536))"
proof (cases "n \<le> 65536")
  case True
  assume "0 < n"
  then have "n + 65535 = 65536 + (n - 1)"
    by simp
  with True show ?thesis
    by (simp add: blocks_def min_def)
next
  case False
  then have "n + 65535 = 65536 + (n - 65536 + 65535)"
    by simp
  with False show ?thesis
    by (simp add: blocks_def min_def)
qed

lemma write_at_twice:
  "p \<le> length c \<Longrightarrow> write_at b (write_at a (c, p)) = write_at (a @ b) (c, p)"
  by (simp add: write_at_def ac_simps)

lemma shred_pass_file:
  assumes laws: "seeker_laws w view" "rand_laws rand"
  shows "shred_pass rand w pass remaining k s = (None, k', s') \<Longrightarrow> snd (view s) \<le> length (fst (view s)) \<Longrightarrow>
    k' = k + blocks (nat remaining) \<and> view s' = write_at (draws rand k (nat remaining)) (view s) \<and>
    length (draws rand k (nat remaining)) = nat remaining"
proof (induction "nat remaining" arbitrary: remaining k s rule: less_induct)
  case less
  show ?case
  proof (cases "remaining \<le> 0")
    case True
    then show ?thesis
      using less.prems
      by (simp add: shred_pass.simps [of _ _ _ remaining] draws.simps [of _ _ 0] blocks_def write_at_def split_beta)
  next
    case False
    define chunk where "chunk = min (nat remaining) 65536"
    have chunk: "(if remaining < int shredBufSize then remaining else int shredBufSize) = int chunk"
      "nat (remaining - int chunk) = nat remaining - chunk" "0 < chunk"
      using False by (auto simp: chunk_def shredBufSize_def min_def)
    obtain buf s1 where buf: "rand k chunk = Inr buf" and wr: "ws_Write w buf s = (None, s1)"
      and rec: "shred_pass rand w pass (remaining - int chunk) (k + 1) s1 = (None, k', s')"
      using less.prems(1) False
      by (subst (asm) shred_pass.simps) (simp add: chunk Let_def split: sum.splits prod.splits option.splits)
    have len: "length buf = chunk"
      using laws(2) buf by (simp add: rand_laws_def)
    have v1: "view s1 = write_at buf (view s)"
      using laws(1) wr by (simp add: seeker_laws_def)
    then have "snd (view s1) \<le> length (fst (view s1))"
      using less.prems(2) by (simp add: write_at_def split_beta)
    moreover have "nat (remaining - int chunk) < nat remaining"
      using chunk False by linarith
    ultimately have IH: "k' = Suc k + blocks (nat remaining - chunk)"
      "view s' = write_at (draws rand (Suc k) (nat remaining - chunk)) (view s1)"
      "length (draws rand (Suc k) (nat remaining - chunk)) = nat remaining - chunk"
      using less.hyps [OF _ rec] by (simp_all add: chunk)
    have "draws rand k (nat remaining) = buf @ draws rand (Suc k) (nat remaining - chunk)"
      using False buf by (subst draws.simps) (simp add: chunk_def)
    moreover have "blocks (nat remaining) = Suc (blocks (nat remaining - chunk))"
      using blocks_step [of "nat remaining"] False by (simp add: chunk_def)
    ultimately show ?thesis
      using IH v1 len less.prems(2) write_at_twice [of "snd (view s)" "fst (view s)"]
      by (simp add: chunk_def)
  qed
qed


lemma shred_passes_file:
  assumes laws: "seeker_laws w view" "rand_laws rand"
  shows "shred_passes rand w fileSize left k s = (None, k', s') \<Longrightarrow>
    k' = k + left * blocks (nat fileSize) \<and>
    (left \<noteq> 0 \<longrightarrow> fst (view s') = draws rand (k + (left - 1) * blocks (nat fileSize)) (nat fileSize) @ drop (nat fileSize) (fst (view s)) \<and>
       length (draws rand (k + (left - 1) * blocks (nat fileSize)) (nat fileSize)) = nat fileSize)"
proof (induction left arbitrary: k s)
  case (Suc left)
  obtain s1 k2 s2 where sk: "ws_SeekStart w s = (None, s1)"
    and ps: "shred_pass rand w (shredPasses - Suc left) fileSize k s1 = (None, k2, s2)"
    and rec: "shred_passes rand w fileSize left k2 s2 = (None, k', s')"
    using Suc.prems by (auto simp: Let_def split: prod.splits option.splits)
  have v1: "view s1 = (fst (view s), 0)"
    using laws(1) sk by (simp add: seeker_laws_def)
  have v2: "k2 = k + blocks (nat fileSize)" "view s2 = write_at (draws rand k (nat fileSize)) (view s1)"
    "length (draws rand k (nat fileSize)) = nat fileSize"
    using shred_pass_file [OF laws ps] v1 by simp_all
  then have "fst (view s2) = draws rand k (nat fileSize) @ drop (nat fileSize) (fst (view s))"
    by (simp add: v1 write_at_def)
  then show ?case
    using Suc.IH [OF rec] v2 rec by (cases left) (simp_all add: ac_simps)
qed simp

lemma shred_pass_succeeds:
  assumes "\<And>k n. \<exists>bs. rand k n = Inr bs" "\<And>bs s. fst (ws_Write w bs s) = None"
  shows "fst (shred_pass rand w pass remaining k s) = None"
proof (induction "nat remaining" arbitrary: remaining k s rule: less_induct)
  case less
  show ?case
  proof (cases "remaining \<le> 0")
    case False
    define chunk where "chunk = (if remaining < int shredBufSize then remaining else int shredBufSize)"
    have "nat (remaining - chunk) < nat remaining"
      using False by (auto simp: chunk_def shredBufSize_def)
    moreover obtain bs where "rand k (nat chunk) = Inr bs"
      using assms(1) by blast
    moreover obtain s1 where "ws_Write w bs s = (None, s1)"
      using assms(2) [of bs s] by (cases "ws_Write w bs s") auto
    ultimately show ?thesis
      using less [of "remaining - chunk" "k + 1" s1] False
      by (subst shred_pass.simps) (simp add: Let_def flip: chunk_def)
  qed (simp add: shred_pass.simps)
qed

lemma shred_passes_succeed:
  assumes "\<And>k n. \<exists>bs. rand k n = Inr bs" "\<And>bs s. fst (ws_Write w bs s) = None" "\<And>s. fst (ws_SeekStart w s) = None"
  shows "fst (shred_passes rand w fileSize left k s) = None"
proof (induction left arbitrary: k s)
  case (Suc left)
  obtain s1 where "ws_SeekStart w s = (None, s1)"
    using assms(3) [of s] by (cases "ws_SeekStart w s") auto
  moreover obtain k2 s2 where "shred_pass rand w (shredPasses - Suc left) fileSize k s1 = (None, k2, s2)"
    using shred_pass_succeeds [of rand w "shredPasses - Suc left" fileSize k s1] assms(1,2)
    by (cases "shred_pass rand w (shredPasses - Suc left) fileSize k s1") auto
  ultimately show ?case
    using Suc by simp
qed simp

section \<open>Properties\<close>

text \<open>
  C32. When shredding a file returns nil, nothing of its first \<open>fileSize\<close> bytes is left: they are
  exactly the random bytes drawn in the seventh pass, each pass having drawn one block per started
  64 KiB, and the bytes behind them are untouched. A non-positive size leaves the contents alone.
  When no seek, draw or write fails, shredding does return nil.
\<close>

theorem Shred_overwrites:
  assumes "seeker_laws w view" "rand_laws rand"
  shows "(Shred rand w fileSize s = (None, k, s') \<longrightarrow>
      k = 7 * blocks (nat fileSize) \<and>
      fst (view s') = draws rand (6 * blocks (nat fileSize)) (nat fileSize) @ drop (nat fileSize) (fst (view s)) \<and>
      length (draws rand (6 * blocks (nat fileSize)) (nat fileSize)) = nat fileSize) \<and>
    ((\<forall>k n. \<exists>bs. rand k n = Inr bs) \<and> (\<forall>bs s. fst (ws_Write w bs s) = None) \<and> (\<forall>s. fst (ws_SeekStart w s) = None) \<longrightarrow>
      fst (Shred rand w fileSize s) = None)"
  using shred_passes_file [OF assms, of fileSize 7 0 s k s'] shred_passes_succeed [of rand w fileSize 7 0 s]
  by (simp add: Shred_def shredPasses_def)


theorem Shred_overwrites_witness:
  "\<exists>(w :: file_view WriteSeeker) rand k s'. Shred rand w 1 ([5, 6], 2) = (None, k, s') \<and> fst s' = [6, 6] \<and> k = 7"
proof -
  define w :: "file_view WriteSeeker" where
    "w = \<lparr>ws_SeekStart = (\<lambda>s. (None, (fst s, 0))), ws_Write = (\<lambda>bs s. (None, write_at bs s))\<rparr>"
  define rand :: rand where "rand k n = Inr (replicate n (of_nat k))" for k n
  have laws: "seeker_laws w (\<lambda>s. s)" "rand_laws rand"
    by (auto simp: seeker_laws_def rand_laws_def w_def rand_def)
  have "fst (Shred rand w 1 ([5, 6], 2)) = None"
    using Shred_overwrites [OF laws, of 1 "([5, 6], 2)"] by (simp add: w_def rand_def)
  then obtain k s' where res: "Shred rand w 1 ([5, 6], 2) = (None, k, s')"
    by (cases "Shred rand w 1 ([5, 6], 2)") auto
  have "draws rand 6 1 = [6]"
    by (simp add: draws.simps [of _ _ "Suc 0"] draws.simps [of _ _ 0] rand_def)
  then show ?thesis
    using Shred_overwrites [OF laws, of 1 "([5, 6], 2)" k s'] res
    by (intro exI [of _ w] exI [of _ rand] exI [of _ k] exI [of _ s']) (simp add: blocks_def)
qed


section \<open>The entropy file\<close>

definition progress_at :: "nat \<Rightarrow> rat \<times> string" where
  "progress_at i = progress (i * 65536)"

text \<open>One round of the loop, with the file positioned behind \<open>j\<close> full chunks.\<close>

lemma entropy_loop_round:
  assumes "j < 32"
  shows "entropy_loop rand f (j * 65536) k calls s =
    (case rand k 65536 of
       Inl err \<Rightarrow> (Some (EntropyRead err), calls, s)
     | Inr buf \<Rightarrow>
         (case os_Write f (take 65536 buf) s of
            (Some err, s') \<Rightarrow> (Some (EntropyWrite err), calls, s')
          | (None, s') \<Rightarrow> entropy_loop rand f (Suc j * 65536) (k + 1) (calls @ [progress_at (Suc j)]) s'))"
proof -
  have "j * 65536 < totalSize" "(if chunkSize < totalSize - j * 65536 then chunkSize else totalSize - j * 65536) = 65536"
    "j * 65536 + 65536 = Suc j * 65536"
    using assms by (auto simp: totalSize_def chunkSize_def)
  then show ?thesis
    by (subst entropy_loop.simps) (simp only: progress_at_def Let_def if_True, simp add: chunkSize_def)
qed

lemma entropy_loop_end: "entropy_loop rand f (32 * 65536) k calls s = (None, calls, s)"
  by (subst entropy_loop.simps) (simp add: totalSize_def)

lemma entropy_loop_file:
  assumes laws: "os_laws f view" "rand_laws rand"
  shows "j \<le> 32 \<Longrightarrow> snd (view s) \<le> length (fst (view s)) \<Longrightarrow>
    entropy_loop rand f (j * 65536) k calls s = (None, calls', s') \<Longrightarrow>
    calls' = calls @ map progress_at [Suc j..<33] \<and>
    view s' = write_at (draws rand k ((32 - j) * 65536)) (view s) \<and>
    length (draws rand k ((32 - j) * 65536)) = (32 - j) * 65536"
proof (induction "32 - j" arbitrary: j k s calls)
  case 0
  then have "j = 32"
    by simp
  then show ?case
    using 0 entropy_loop_end [of rand f k calls s] by (simp add: draws.simps [of _ _ 0] write_at_def split_beta)
next
  case (Suc m)
  then have j: "j < 32" and jm: "m = 32 - Suc j" "Suc j \<le> 32"
    by simp_all
  obtain buf s1 where buf: "rand k 65536 = Inr buf" and wr: "os_Write f (take 65536 buf) s = (None, s1)"
    and rec: "entropy_loop rand f (Suc j * 65536) (k + 1) (calls @ [progress_at (Suc j)]) s1 = (None, calls', s')"
    using Suc.prems(3) unfolding entropy_loop_round [OF j] by (auto split: sum.splits prod.splits option.splits)
  have len: "length buf = 65536"
    using laws(2) buf by (simp add: rand_laws_def)
  then have v1: "view s1 = write_at buf (view s)"
    using laws(1) wr by (simp add: os_laws_def)
  then have "snd (view s1) \<le> length (fst (view s1))"
    using Suc.prems(2) by (simp add: write_at_def split_beta)
  note IH = Suc.hyps(1) [OF jm this rec]
  have "draws rand k ((32 - j) * 65536) = buf @ draws rand (k + 1) ((32 - Suc j) * 65536)"
  proof -
    have "(32 - j) * 65536 \<noteq> 0" "min ((32 - j) * 65536) 65536 = 65536" "(32 - j) * 65536 - 65536 = (32 - Suc j) * 65536"
      using j by (auto simp: min_def)
    then show ?thesis
      using buf by (subst draws.simps) simp
  qed
  moreover have "[Suc j..<33] = Suc j # [Suc (Suc j)..<33]"
    using j by (simp add: upt_conv_Cons)
  ultimately show ?case
    using IH v1 len j Suc.prems(2) write_at_twice [of "snd (view s)" "fst (view s)"] by simp
qed

lemma entropy_loop_succeeds:
  assumes "\<And>k n. \<exists>bs. rand k n = Inr bs" "\<And>bs s. fst (os_Write f bs s) = None"
  shows "j \<le> 32 \<Longrightarrow> fst (entropy_loop rand f (j * 65536) k calls s) = None"
proof (induction "32 - j" arbitrary: j k s calls)
  case 0
  then have "j = 32"
    by simp
  then show ?case
    using entropy_loop_end [of rand f k calls s] by simp
next
  case (Suc m)
  then have j: "j < 32" and jm: "m = 32 - Suc j" "Suc j \<le> 32"
    by simp_all
  obtain buf where "rand k 65536 = Inr buf"
    using assms(1) by blast
  moreover obtain s1 where "os_Write f (take 65536 buf) s = (None, s1)"
    using assms(2) [of "take 65536 buf" s] by (cases "os_Write f (take 65536 buf) s") auto
  ultimately show ?case
    unfolding entropy_loop_round [OF j] using Suc.hyps(1) [OF jm] by simp
qed


text \<open>
  C33. When the generation of the entropy file returns nil, the file holds exactly two mebibytes, and
  they are the random bytes drawn in 32 blocks of 64 KiB; the progress callback was called 32 times,
  after each written block, with the fractions 1/32 to 1. When opening, drawing, writing and syncing
  do not fail, the generation does return nil.
\<close>

theorem entropy_file_contents:
  assumes "os_laws f view" "rand_laws rand"
  shows "(GenerateEntropyFileWithProgress rand f s = (None, calls, s') \<longrightarrow>
      fst (view s') = draws rand 0 (2 * 1024 * 1024) \<and> length (fst (view s')) = 2 * 1024 * 1024 \<and>
      map fst calls = map (\<lambda>i. of_nat i / 32) [1..<33]) \<and>
    ((\<forall>k n. \<exists>bs. rand k n = Inr bs) \<and> (\<forall>s. fst (os_OpenFile f [O_CREATE, O_WRONLY, O_TRUNC] 384 s) = None) \<and>
      (\<forall>bs s. fst (os_Write f bs s) = None) \<and>
      (\<forall>s. fst (os_Sync f s) = None) \<longrightarrow> fst (GenerateEntropyFileWithProgress rand f s) = None)"
proof (rule conjI; rule impI)
  assume "GenerateEntropyFileWithProgress rand f s = (None, calls, s')"
  then obtain s1 s2 s3 where op: "os_OpenFile f [O_CREATE, O_WRONLY, O_TRUNC] 384 s = (None, s1)" and lp: "entropy_loop rand f (0 * 65536) 0 [] s1 = (None, calls, s2)"
    and sy: "os_Sync f s2 = (None, s3)" "s' = os_Close f s3"
    by (auto simp: GenerateEntropyFileWithProgress_def split: prod.splits option.splits)
  have "view s1 = ([], 0)" "view s' = view s2"
    using assms(1) op sy by (auto simp: os_laws_def) (metis snd_conv)
  moreover have "map fst (map progress_at [Suc 0..<33]) = map (\<lambda>i. of_nat i / 32) [1..<33]"
    by (simp add: progress_at_def progress_def totalSize_def)
  ultimately show "fst (view s') = draws rand 0 (2 * 1024 * 1024) \<and> length (fst (view s')) = 2 * 1024 * 1024 \<and>
      map fst calls = map (\<lambda>i. of_nat i / 32) [1..<33]"
    using entropy_loop_file [OF assms, of 0 s1 0 "[]" calls s2] lp by (simp add: write_at_def)
next
  assume ok: "(\<forall>k n. \<exists>bs. rand k n = Inr bs) \<and> (\<forall>s. fst (os_OpenFile f [O_CREATE, O_WRONLY, O_TRUNC] 384 s) = None) \<and>
      (\<forall>bs s. fst (os_Write f bs s) = None) \<and>
    (\<forall>s. fst (os_Sync f s) = None)"
  then obtain s1 where op: "os_OpenFile f [O_CREATE, O_WRONLY, O_TRUNC] 384 s = (None, s1)"
    by (metis prod.collapse)
  moreover obtain c2 s2 where "entropy_loop rand f 0 0 [] s1 = (None, c2, s2)"
    using entropy_loop_succeeds [of rand f 0 0 "[]" s1] ok by (cases "entropy_loop rand f 0 0 [] s1") auto
  moreover obtain s3 where "os_Sync f s2 = (None, s3)"
    using ok by (metis prod.collapse)
  ultimately show "fst (GenerateEntropyFileWithProgress rand f s) = None"
    by (simp add: GenerateEntropyFileWithProgress_def)
qed

theorem entropy_file_contents_witness:
  "\<exists>(f :: file_view os_file) rand calls s'. GenerateEntropyFileWithProgress rand f ([1], 0) = (None, calls, s') \<and>
     length (fst s') = 2 * 1024 * 1024 \<and> length calls = 32"
proof -
  define f :: "file_view os_file" where
    "f = \<lparr>os_OpenFile = (\<lambda>flags perm s. (None, (if O_TRUNC \<in> set flags then [] else fst s, 0))), os_Write = (\<lambda>bs s. (None, write_at bs s)),
       os_Sync = (\<lambda>s. (None, s)), os_Close = (\<lambda>s. s)\<rparr>"
  define rand :: rand where "rand k n = Inr (replicate n (of_nat k))" for k n
  have laws: "os_laws f (\<lambda>s. s)" "rand_laws rand"
    by (auto simp: os_laws_def rand_laws_def f_def rand_def)
  have "fst (GenerateEntropyFileWithProgress rand f ([1], 0)) = None"
    using entropy_file_contents [OF laws, of "([1], 0)"] by (simp add: f_def rand_def)
  then obtain calls s' where res: "GenerateEntropyFileWithProgress rand f ([1], 0) = (None, calls, s')"
    by (cases "GenerateEntropyFileWithProgress rand f ([1], 0)") auto
  then have props: "length (fst s') = 2 * 1024 * 1024" "map fst calls = map (\<lambda>i. of_nat i / 32) [1..<33]"
    using entropy_file_contents [OF laws, of "([1], 0)" calls s'] by blast+
  have "length calls = 32"
    using arg_cong [OF props(2), of length] by simp
  then show ?thesis
    using res props(1) by blast
qed

end
