(* ===== verification/Grim_Tools.thy ===== *)
theory Grim_Tools
  imports Grim_Memory
begin

text \<open>
  \<open>engine/tools/ssh_gen.go\<close>: the generation of SSH key pairs and passphrases. Ed25519, the SSH
  encodings and PEM are parameters of the generator; the line it builds and its error paths are the
  code's own. The random source is a function of the requested length.
\<close>

section \<open>Key pairs\<close>

record SSHKeyPair =
  kp_PublicKey :: string
  kp_PrivateKeyPEM :: "byte list"
  kp_Fingerprint :: string
  kp_Comment :: string
  kp_EntryID :: string

datatype ssh_error = GenerateKey go_error | MarshalPublic go_error | MarshalPrivate ssh_error
  | MarshalPrivateKeyErr go_error | MarshalPrivateKeyWithPassphraseErr go_error | PassphraseErr go_error
  | PassphrasePanic

text \<open>The packages the generator calls, over their types of keys, wire keys and PEM blocks.\<close>

record ('pub, 'priv, 'spub, 'pem) ssh_lib =
  ed25519_GenerateKey :: "go_error + 'pub \<times> 'priv"
  ssh_NewPublicKey :: "'pub \<Rightarrow> go_error + 'spub"
  ssh_MarshalAuthorizedKey :: "'spub \<Rightarrow> string"
  ssh_FingerprintSHA256 :: "'spub \<Rightarrow> string"
  ssh_MarshalPrivateKey :: "'priv \<Rightarrow> string \<Rightarrow> go_error + 'pem"
  ssh_MarshalPrivateKeyWithPassphrase :: "'priv \<Rightarrow> string \<Rightarrow> byte list \<Rightarrow> go_error + 'pem"
  pem_EncodeToMemory :: "'pem \<Rightarrow> byte list"

definition marshalEd25519PrivateKey ::
  "('pub, 'priv, 'spub, 'pem) ssh_lib \<Rightarrow> 'priv \<Rightarrow> string \<Rightarrow> ssh_error + byte list" where
  "marshalEd25519PrivateKey lib key comment =
     (case ssh_MarshalPrivateKey lib key comment of
        Inl err \<Rightarrow> Inl (MarshalPrivateKeyErr err)
      | Inr pemBlock \<Rightarrow> Inr (pem_EncodeToMemory lib pemBlock))"

definition marshalEd25519PrivateKeyWithPassphrase ::
  "('pub, 'priv, 'spub, 'pem) ssh_lib \<Rightarrow> 'priv \<Rightarrow> string \<Rightarrow> string \<Rightarrow> ssh_error + byte list" where
  "marshalEd25519PrivateKeyWithPassphrase lib key comment passphrase =
     (case ssh_MarshalPrivateKeyWithPassphrase lib key comment (bytes_of passphrase) of
        Inl err \<Rightarrow> Inl (MarshalPrivateKeyWithPassphraseErr err)
      | Inr pemBlock \<Rightarrow> Inr (pem_EncodeToMemory lib pemBlock))"

text \<open>The \<open>authorized_keys\<close> line with the comment of the caller.\<close>

definition public_line :: "string \<Rightarrow> string \<Rightarrow> string" where
  "public_line pubLine comment =
     (if comment \<noteq> '''' then
        (let pubLine = (if 0 < length pubLine \<and> pubLine ! (length pubLine - 1) = CHR 0x0A
                        then take (length pubLine - 1) pubLine else pubLine)
         in pubLine @ '' '' @ comment @ [CHR 0x0A])
      else pubLine)"

definition GenerateEd25519Pair ::
  "('pub, 'priv, 'spub, 'pem) ssh_lib \<Rightarrow> string \<Rightarrow> string \<Rightarrow> ssh_error + SSHKeyPair" where
  "GenerateEd25519Pair lib comment passphrase =
     (case ed25519_GenerateKey lib of
        Inl err \<Rightarrow> Inl (GenerateKey err)
      | Inr (pubKey, privKey) \<Rightarrow>
          (case ssh_NewPublicKey lib pubKey of
             Inl err \<Rightarrow> Inl (MarshalPublic err)
           | Inr sshPub \<Rightarrow>
               (let pubLine = public_line (ssh_MarshalAuthorizedKey lib sshPub) comment;
                    fingerprint = ssh_FingerprintSHA256 lib sshPub
                in case (if passphrase \<noteq> '''' then marshalEd25519PrivateKeyWithPassphrase lib privKey comment passphrase
                         else marshalEd25519PrivateKey lib privKey comment) of
                     Inl err \<Rightarrow> Inl (MarshalPrivate err)
                   | Inr privPEM \<Rightarrow>
                       Inr \<lparr>kp_PublicKey = pubLine, kp_PrivateKeyPEM = privPEM, kp_Fingerprint = fingerprint,
                            kp_Comment = comment, kp_EntryID = ''''\<rparr>)))"

section \<open>Passphrases\<close>

definition passphrase_chars :: string where
  "passphrase_chars = ''ABCDEFGHIJKLMNOPQRSTUVWXYZabcdefghijklmnopqrstuvwxyz0123456789!@#$%^&*()-_=+''"

definition passphrase_char :: "byte \<Rightarrow> char" where
  "passphrase_char b = passphrase_chars ! (unat b mod length passphrase_chars)"

text \<open>\<open>make\<close> panics when the length is negative.\<close>

definition generateSecurePassphrase :: "(nat \<Rightarrow> go_error + byte list) \<Rightarrow> int \<Rightarrow> ssh_error + string" where
  "generateSecurePassphrase rand len =
     (if len < 0 then Inl PassphrasePanic
      else case rand (nat len) of
        Inl err \<Rightarrow> Inl (PassphraseErr err)
      | Inr rnd \<Rightarrow> Inr (map passphrase_char (copy_bytes (replicate (nat len) 0) rnd)))"

section \<open>Lemmas\<close>

lemma length_passphrase_chars [simp]: "length passphrase_chars = 76"
  by (simp add: passphrase_chars_def)

lemma distinct_passphrase_chars: "distinct passphrase_chars"
  by (simp add: passphrase_chars_def)

lemma passphrase_char_iff:
  "i < 76 \<Longrightarrow> passphrase_char b = passphrase_chars ! i \<longleftrightarrow> unat b mod 76 = i"
  using distinct_passphrase_chars by (simp add: passphrase_char_def nth_eq_iff_index_eq)

lemma residue_class:
  "i < (76 :: nat) \<Longrightarrow> {n. n < 256 \<and> n mod 76 = i} = (if i < 28 then {i, i + 76, i + 152, i + 228} else {i, i + 76, i + 152})"
proof -
  assume "i < 76"
  have "n = i \<or> n = i + 76 \<or> n = i + 152 \<or> (n = i + 228 \<and> i < 28)" if "n mod 76 = i" "n < 256" for n
  proof -
    have "n div 76 < 4" "n = n div 76 * 76 + i"
      using that div_mult_mod_eq [of n 76] by (auto simp: less_mult_imp_div_less)
    moreover from this(1) have "n div 76 \<in> {0, 1, 2, 3}"
      by auto
    ultimately show ?thesis
      using that by auto
  qed
  moreover have "i mod 76 = i" "(i + 76) mod 76 = i" "(i + 152) mod 76 = i" "(i + 228) mod 76 = i"
    using \<open>i < 76\<close> mod_mult_self1 [of i 2 76] mod_mult_self1 [of i 3 76] by simp_all
  ultimately show ?thesis
    using \<open>i < 76\<close> by (cases "i < 28") (simp_all, (rule set_eqI; use \<open>i < 76\<close> in force)+)
qed

lemma byte_less: "unat (b :: byte) < 256"
  using unsigned_less [of b] by simp

section \<open>Properties\<close>

text \<open>
  The public line that is returned with a comment is the marshalled key without its final line
  break, a space, the comment and one line break; so it is a single line exactly when the comment
  contains no line break. The comment is not checked: one with a line break yields several lines of
  an authorized-keys file.
\<close>

theorem public_line_single:
  assumes "CHR 0x0A \<notin> set key" "comment \<noteq> ''''"
  shows "public_line (key @ [CHR 0x0A]) comment = key @ '' '' @ comment @ [CHR 0x0A] \<and>
    (count_list (public_line (key @ [CHR 0x0A]) comment) (CHR 0x0A) = 1 \<longleftrightarrow> CHR 0x0A \<notin> set comment)"
proof -
  have "public_line (key @ [CHR 0x0A]) comment = key @ '' '' @ comment @ [CHR 0x0A]"
    using assms(2) by (simp add: public_line_def nth_append)
  then show ?thesis
    using assms(1) by (simp add: count_list_0_iff)
qed

theorem public_line_single_witness:
  "public_line (''ssh-ed25519 AAAA'' @ [CHR 0x0A]) ''me'' = ''ssh-ed25519 AAAA me'' @ [CHR 0x0A]"
  using public_line_single [of "''ssh-ed25519 AAAA''" "''me''"] by simp

text \<open>
  A generated passphrase has the requested number of characters, all of the alphabet, or the random
  source failed or the length was negative; and the choice is biased: the first 28 characters of the
  alphabet each come from four byte values, the other 48 from three.
\<close>

theorem passphrase_bias:
  assumes "i < 76"
  shows "card {b :: byte. generateSecurePassphrase (\<lambda>_. Inr [b]) 1 = Inr [passphrase_chars ! i]} = (if i < 28 then 4 else 3) \<and>
    (case generateSecurePassphrase rand len of
       Inl err \<Rightarrow> (len < 0 \<and> err = PassphrasePanic) \<or> (\<exists>e. rand (nat len) = Inl e \<and> err = PassphraseErr e)
     | Inr p \<Rightarrow> int (length p) = len \<and> set p \<subseteq> set passphrase_chars)"
proof -
  have "bij_betw unat {b :: byte. unat b mod 76 = i} {n. n < 256 \<and> n mod 76 = i}"
    by (rule bij_betw_byWitness [where f' = of_nat])
      (auto simp: unat_of_nat byte_less)
  then have "card {b :: byte. unat b mod 76 = i} = card {n. n < 256 \<and> n mod 76 = i}"
    by (rule bij_betw_same_card)
  also have "\<dots> = (if i < 28 then 4 else 3)"
    unfolding residue_class [OF assms] by simp
  finally have "card {b :: byte. generateSecurePassphrase (\<lambda>_. Inr [b]) 1 = Inr [passphrase_chars ! i]} = (if i < 28 then 4 else 3)"
    using assms by (simp add: generateSecurePassphrase_def passphrase_char_iff copy_bytes_def)
  moreover have "set (map passphrase_char bs) \<subseteq> set passphrase_chars" for bs
    using nth_mem [of _ passphrase_chars] by (auto simp: passphrase_char_def)
  ultimately show ?thesis
    by (auto simp: generateSecurePassphrase_def split: sum.split simp del: set_map)
qed

theorem passphrase_bias_witness:
  "card {b :: byte. generateSecurePassphrase (\<lambda>_. Inr [b]) 1 = Inr ''A''} = 4 \<and>
   card {b :: byte. generateSecurePassphrase (\<lambda>_. Inr [b]) 1 = Inr ''+''} = 3"
  using passphrase_bias [of 0] passphrase_bias [of 75] by (simp add: passphrase_chars_def)

end
