(* ===== verification/Spec2Isabelle.thy ===== *)
theory Spec2Isabelle
  imports Grim_GQL_Validator Grim_GQL_Language Grim_GQL_Result Grim_Error_JSON Grim_Lockdown Grim_Audit Grim_Rate_Limiter Grim_Secrets Grim_Kernel_Registry Grim_Kernel_Concurrency Grim_Messages Grim_Session Grim_ZKP Grim_Intrusion Grim_Storage Grim_Crypto Grim_Files Grim_Tools
begin

text \<open>
  A verification of the Go engine of Grimlocker (\<open>src/engine\<close>), the vault behind a desktop
  application.

  \<^bold>\<open>The program.\<close> A client sends binary GQL frames. A frame is decoded and validated against the
  session (\<open>gql\<close>), which is unlocked with a handle to the master vault key and locks itself after
  inactivity (\<open>security/session.go\<close>). The key lives in a buffer of the memory guard and is
  addressed by handle (\<open>mvk_store.go\<close>, \<open>secret_guard.go\<close>, \<open>memguard.go\<close>); it is derived from an
  entropy file (\<open>crypto\<close>, \<open>bridge\<close>). Logins are guarded by a lockdown manager, a rate limiter, an
  intrusion detector and challenge-response proofs, and recorded in a hash-chained audit log. Modules
  talk over an event bus with gated channels (\<open>kernel\<close>); vault blocks are written through a buffered
  transaction (\<open>storage\<close>). Errors are structured values with codes (\<open>errors\<close>).

  \<^bold>\<open>Theories and sources.\<close> Paths are below \<open>src/engine\<close>; definitions keep the names of the Go code.
  \<^item> \<open>Grim_Prelude\<close>: byte slices, big-endian integers, buffer writes that panic out of range, Go maps
    as association lists, UTF-8 iteration, and the interfaces \<open>self_delimiting\<close> (a codec that leaves
    the rest of its input), \<open>exact_codec\<close> (which also accepts nothing but encodings), \<open>op_system\<close> (an
    invariant kept by every operation), \<open>refines\<close> (and a simulation of a specification) and
    \<open>step_system\<close> (an invariant of a labelled step relation). \<open>run\<close> folds an operation over a sequence
    of calls, \<open>trace\<close> is a run of a step relation.
  \<^item> \<open>Grim_GQL_Opcodes\<close> (\<open>gql/opcodes.go\<close>, \<open>gql/errors.go\<close>), \<open>Grim_GQL_Types\<close> (\<open>gql/types.go\<close>),
    \<open>Grim_GQL_Frame\<close> (\<open>gql/frame.go\<close>), \<open>Grim_GQL_Validator\<close> (\<open>gql/validator.go\<close>) and
    \<open>Grim_GQL_Result\<close> (results and errors of \<open>types.go\<close> and \<open>frame.go\<close>): the layout of encoded
    queries, when the round trip holds, that decoding never panics, which frames are accepted, and
    which responses arrive. \<open>Grim_GQL_Language\<close> gives the exact set of payloads the decoder accepts
    with the query each of them denotes.
  \<^item> \<open>Grim_JSON\<close>: \<open>json.Marshal\<close> as the engine uses it, with a reader of the texts it produces.
  \<^item> \<open>Grim_Format\<close>: the verbs of \<open>fmt\<close> that client data is printed with, and the texts without
    control characters. \<open>Grim_Messages\<close>: the texts of the errors of \<open>gql\<close>, of the anomalies of
    \<open>security/intrusion_detector.go\<close> and of module registration, where the other theories keep the
    formatted values as arguments of an error; no client can put a control character into the errors
    of its requests or into the anomaly log.
  \<^item> \<open>Grim_Errors\<close> (\<open>errors/types.go\<close>, \<open>stacktrace.go\<close>, \<open>logging.go\<close>) and \<open>Grim_Error_JSON\<close>
    (\<open>MarshalJSON\<close>): matching and wrapping, and what the text of an error tells a client.
  \<^item> \<open>Grim_Lockdown\<close>, \<open>Grim_Rate_Limiter\<close>, \<open>Grim_Intrusion\<close>, \<open>Grim_ZKP\<close>, \<open>Grim_Audit\<close>, \<open>Grim_Session\<close>,
    \<open>Grim_Memory\<close> (\<open>memguard.go\<close>, \<open>constant_time.go\<close>) and \<open>Grim_Secrets\<close> (\<open>mvk_store.go\<close>,
    \<open>secret_guard.go\<close>): the files of \<open>security\<close> of these names. Each component is a record with one
    definition per method, an invariant of its reachable states and its policy: escalation and
    permanence of the lockdown, the backoff table, what the detector reports as a function of the calls
    made, acceptance and freshness of proofs, the audit ring as a bounded list, the session with its
    timer and its announcements as a step relation, and the two key stores as maps that leave no key
    bytes in released buffers.
  \<^item> \<open>Grim_Sha256\<close>: SHA-256 of the Go standard library, computed on words.
  \<^item> \<open>Grim_Kernel_Event\<close> (\<open>event.go\<close>, \<open>uuid.go\<close>), \<open>Grim_Kernel_Handler\<close> (\<open>handler.go\<close>),
    \<open>Grim_Kernel_Bus\<close> (\<open>bus.go\<close>, \<open>dispatcher.go\<close>), \<open>Grim_Kernel_Registry\<close> (\<open>registry.go\<close>,
    \<open>module_factory.go\<close>): routing, request and reply, gates, hop counts, start-up order. The
    registry is proved over the interface \<open>dispatcher\<close>, which the bus implements.
    \<open>Grim_Kernel_Concurrency\<close> cuts the calls of the bus at their critical sections and lets them and
    the goroutines they start interleave: an uninterrupted call is the atomic one, replies go to
    their requests and events to the modules registered at the time, a closed gate lets through only
    what had passed it, and the tasks always come to rest.
  \<^item> \<open>Grim_Storage\<close> (\<open>storage\<close>), \<open>Grim_Bridge\<close> (\<open>bridge\<close>), \<open>Grim_Crypto\<close> (the provider and key
    derivation of \<open>crypto\<close>), \<open>Grim_Files\<close> (\<open>crypto/shredder.go\<close>, \<open>crypto/entropy.go\<close>) and
    \<open>Grim_Tools\<close> (\<open>tools/ssh_gen.go\<close>): what a commit does to the store, the contract \<open>write_transaction\<close> of
    transactions that the buffered one implements, the text encodings of the
    bridge, bounds of the derived offsets, the contents of shredded and generated files, and the
    generated key lines and passphrases.
  \<^item> This theory composes them: the validator with a session that runs between its questions, and
    the events of a session with the bus.

  \<^bold>\<open>Conventions.\<close> The clock and the random source are arguments; a method reads the clock once.
  What a method does while it holds a mutex is an atomic step, and interleavings are sequences of such
  steps; what a session or the bus does after releasing a mutex is a step of its own. The lockout
  manager calls back while it holds its mutex, so \<open>Grim_Lockdown\<close> also has its methods with the mutex:
  a call that locks a mutex its goroutine holds does not return, and otherwise a method is its atomic
  step. A
  goroutine that is started appears as the call it makes, in the list of spawned calls. A panic, an
  error return and a failing call of the environment are values. Integers have their width where the
  code can reach its limits (lengths, frame fields, durations in nanoseconds); counters that start at
  zero and grow by one are unbounded. Text case is changed for ASCII letters only. Log lines are
  modelled where a handler, an error or the intrusion detector writes them, without elapsed times.

  \<^bold>\<open>Parameters.\<close> Code outside the repository is an argument of the definitions that call it:
  BLAKE2b-256, HKDF, Argon2id, ChaCha20-Poly1305, Ed25519 with the SSH and PEM encodings, the block
  store behind a transaction, the calls on an open file, the locking of memory, and the table of
  printable characters above ASCII. The theorems name the
  documented laws they use: decryption opens what was sealed under the same key, nonce and additional
  data, a digest has 32 bytes, HKDF returns as many bytes as requested. Collisions of SHA-256 are a
  case of the audit theorem, not excluded by assumption.

  \<^bold>\<open>Loops and fuel.\<close> The shredder and the entropy generator end by a measure on the bytes that
  remain; a failing call ends them with its error. The JSON reader takes fuel: the length of the text
  is enough for every text that \<open>json.Marshal\<close> writes, which is proved with the round trip. All
  other loops are structural recursions.

  \<^bold>\<open>Not modelled.\<close> \<open>provider/interfaces.go\<close> and \<open>port.go\<close> hold interfaces, aliases and data types
  that no code of the repository uses. The Rust enclave (\<open>src/core-rust\<close>) is a separate program that
  the engine sees only through the interface of the bridge. The scheduling of goroutines is left open.
\<close>


section \<open>Requests and the session\<close>

text \<open>
  The session the validator consults. It asks two questions one after the other, so the answers
  may come from different states of the session; the user and the roles come from the embedding
  application.
\<close>

definition session_info :: "string \<Rightarrow> (string \<Rightarrow> bool) \<Rightarrow> SessionContext \<Rightarrow> SessionContext \<Rightarrow> SessionInfo" where
  "session_info uid hasRole s1 s2 =
     \<lparr>s_IsUnlocked = IsUnlocked s1, s_ActiveHandle = ActiveHandle s2, s_UserID = uid, s_HasRole = hasRole\<rparr>"

text \<open>The steps that end a session or start a new one.\<close>

fun changes_session :: "session_label \<Rightarrow> bool" where
  "changes_session (LUnlock now h) = True"
| "changes_session LLock = True"
| "changes_session LCallback = True"
| "changes_session _ = False"

text \<open>The run contains an unlocking with \<open>h\<close> that nothing has ended since.\<close>

definition unlocked_with :: "string \<Rightarrow> session_label list \<Rightarrow> bool" where
  "unlocked_with h ls \<longleftrightarrow>
     (\<exists>ls1 now ls2. ls = ls1 @ LUnlock now h # ls2 \<and> \<not> list_ex changes_session ls2)"

lemma unlocked_with_Cons: "unlocked_with h ls \<Longrightarrow> unlocked_with h (l # ls)"
  unfolding unlocked_with_def by (metis append_Cons)

lemma session_step_handle:
  assumes "session_step \<sigma> l \<sigma>'" "active (ses \<sigma>')"
  shows "(\<exists>now. l = LUnlock now (mvkHandle (ses \<sigma>'))) \<or>
    (\<not> changes_session l \<and> active (ses \<sigma>) \<and> mvkHandle (ses \<sigma>) = mvkHandle (ses \<sigma>'))"
  using assms by (induction rule: session_step.induct) (auto simp: session_defs split: if_splits)

lemma session_run_handle:
  assumes "session_run \<sigma> ls \<sigma>'" "active (ses \<sigma>')"
  shows "unlocked_with (mvkHandle (ses \<sigma>')) ls \<or>
    (\<not> list_ex changes_session ls \<and> active (ses \<sigma>) \<and> mvkHandle (ses \<sigma>) = mvkHandle (ses \<sigma>'))"
  using assms
proof (induction rule: trace.induct)
  case (trace_Cons \<sigma> l \<sigma>1 ls \<sigma>')
  from trace_Cons.IH [OF trace_Cons.prems] show ?case
  proof
    assume "unlocked_with (mvkHandle (ses \<sigma>')) ls"
    then show ?thesis
      by (simp add: unlocked_with_Cons)
  next
    assume *: "\<not> list_ex changes_session ls \<and> active (ses \<sigma>1) \<and> mvkHandle (ses \<sigma>1) = mvkHandle (ses \<sigma>')"
    then show ?thesis
      using session_step_handle [OF trace_Cons.hyps(1)] unfolding unlocked_with_def
      by (auto intro: exI [of _ "[]"])
  qed
qed simp

text \<open>
  C1. No request is served without a live session. The validator asks the session first whether it
  is unlocked and then for its handle. Whatever steps of the session come before and between the
  two questions, unlocks, locks, activity, timer expiries, callbacks and announcements in any order, a
  request is accepted only if at the second question the vault is unlocked with a non-empty handle
  that the run unlocked, and since that unlocking neither a lock nor a timer callback has run. In
  every other state all requests are rejected.
\<close>

theorem accepted_query_needs_live_session:
  assumes "session_run initial_sys ls1 \<sigma>1" "session_run \<sigma>1 ls2 \<sigma>2"
    and "ValidateFrame f (Some (session_info uid hasRole (ses \<sigma>1) (ses \<sigma>2))) = Inr (Some q)"
  shows "IsUnlocked (ses \<sigma>2) \<and> ActiveHandle (ses \<sigma>2) \<noteq> '''' \<and> unlocked_with (ActiveHandle (ses \<sigma>2)) (ls1 @ ls2)"
proof -
  have handle: "ActiveHandle (ses \<sigma>2) \<noteq> ''''"
    using assms(3) by (auto simp: ValidateFrame_Some_iff authorised_def session_info_def)
  then have "active (ses \<sigma>2)"
    by (auto simp: ActiveHandle_def split: if_splits)
  then have "unlocked_with (mvkHandle (ses \<sigma>2)) (ls1 @ ls2)"
    using session_run_handle [of initial_sys "ls1 @ ls2" \<sigma>2] assms(1,2)
    by (auto simp: trace_append initial_sys_def NewSessionContext_def)
  then show ?thesis
    using handle \<open>active (ses \<sigma>2)\<close> by (simp add: IsUnlocked_def ActiveHandle_def)
qed

theorem accepted_query_needs_live_session_witness:
  "unlocked_with ''h'' [LUnlock 5 ''h'', LActivity 6]"
proof -
  define \<sigma>1 where "\<sigma>1 = initial_sys\<lparr>ses := Unlock_locked 5 ''h'' NewSessionContext, announcing := [AnnounceReady]\<rparr>"
  define \<sigma>2 where "\<sigma>2 = \<sigma>1\<lparr>ses := ResetActivity 6 (ses \<sigma>1)\<rparr>"
  have r: "session_run initial_sys [LUnlock 5 ''h''] \<sigma>1" "session_run \<sigma>1 [LActivity 6] \<sigma>2"
    by (simp_all add: session_step_simps \<sigma>2_def) (simp add: \<sigma>1_def initial_sys_def)
  have live: "IsUnlocked (ses \<sigma>1)" "ActiveHandle (ses \<sigma>2) = ''h''"
    by (simp_all add: \<sigma>2_def \<sigma>1_def session_defs IsUnlocked_def ActiveHandle_def)
  obtain f where "ValidateFrame f (Some (session_info ''default'' (\<lambda>_. False) (ses \<sigma>1) (ses \<sigma>2))) =
      Inr (Some sample_query)"
    using request_accepted [OF sample_wellformed,
        of "Some (session_info ''default'' (\<lambda>_. False) (ses \<sigma>1) (ses \<sigma>2))"] live
    by (auto simp: sample_query_def isValidOperation_def gomap_def authorised_def session_info_def bytes_of_def)
  then show ?thesis
    using accepted_query_needs_live_session [OF r] live by simp
qed

section \<open>Session events on the bus\<close>

text \<open>What the events of a session call spawn when they are dispatched on a bus at \<open>now\<close>.\<close>

definition spawned :: "time \<Rightarrow> Event list \<Rightarrow> 'h bus \<Rightarrow> ('h \<times> Event) list" where
  "spawned now evs b = concat (map (\<lambda>e. snd (Dispatch now e b)) evs)"

lemma spawned_one:
  assumes "routing_inv b" "\<not> gated b (Channel t)"
  shows "\<exists>e. ev_Type e = t \<and> ev_Payload e = payload \<and> ev_TTL e = 7 \<and> ev_Origin e = origin \<and>
    spawned now' [NewEvent now rnd origin t payload] b =
      map (\<lambda>h. (nh_handler h, e)) (expected (modules b) (Channel t) @ subscribersOf b t)"
proof -
  define e where "e = NewEvent now rnd origin t payload"
  obtain e' where "prepare now' e = Some e'"
    and "ev_Type e' = t" "ev_Payload e' = payload" "ev_TTL e' = 7" "ev_Origin e' = origin"
    by (auto simp: e_def prepare_def NewEvent_def defaultTTL_def Let_def)
  moreover from this(1) have "snd (Dispatch now' e b) =
      map (\<lambda>h. (nh_handler h, e')) (expected (modules b) (Channel t) @ subscribersOf b t)"
    using assms Dispatch_expected [OF assms(1), of now' e] by (simp add: e_def NewEvent_def)
  ultimately show ?thesis
    by (auto simp: spawned_def e_def)
qed

lemma auth_channel: "Channel EvAuthReady = ''AUTH''" "Channel EvAuthLogout = ''AUTH''"
  by (simp_all add: Channel_takeWhile EvAuthReady_def EvAuthLogout_def)

text \<open>
  C2. Unlocking and locking reach every module on the authentication channel. On any reachable bus
  on which that channel is not gated, unlocking a session with a dispatcher hands one and the same
  ready event to every registered module that listens on the channel, in registration order, and
  then to every subscriber of the event; locking an active session does the same with the logout
  event. The ready event carries the unlock time and never the handle, whichever was used.
\<close>

theorem session_events_reach_modules:
  fixes css ops
  defines "b \<equiv> run bus_step (NewBus (map WithGatedChannels css)) ops"
  assumes "dispatcher s" "\<not> gated b ''AUTH''"
  shows "(\<exists>e. ev_Type e = EvAuthReady \<and> ev_Payload e = ready_payload now \<and> ev_Origin e = ''session'' \<and> ev_TTL e = 7 \<and>
      (\<forall>handle. spawned now' (snd (Unlock now rnd handle s)) b =
        map (\<lambda>h. (nh_handler h, e)) (expected (modules b) ''AUTH'' @ subscribersOf b EvAuthReady))) \<and>
    (active s \<longrightarrow> (\<exists>e. ev_Type e = EvAuthLogout \<and> ev_Origin e = ''session'' \<and> ev_TTL e = 7 \<and>
      spawned now' (snd (Lock now rnd s)) b =
        map (\<lambda>h. (nh_handler h, e)) (expected (modules b) ''AUTH'' @ subscribersOf b EvAuthLogout)))"
proof -
  have inv: "routing_inv b"
    by (simp add: b_def routing_reachable)
  have "snd (Unlock now rnd handle s) = [NewEvent now rnd ''session'' EvAuthReady (ready_payload now)]" for handle
    using assms(2) by (simp add: session_defs)
  moreover have "active s \<Longrightarrow> snd (Lock now rnd s) = [NewEvent now rnd ''session'' EvAuthLogout (bytes_of ''{\"reason\":\"session_locked\"}'')]"
    using assms(2) by (simp add: session_defs)
  ultimately show ?thesis
    using spawned_one [OF inv, of EvAuthReady "ready_payload now" "''session''" now' now rnd]
      spawned_one [OF inv, of EvAuthLogout "bytes_of ''{\"reason\":\"session_locked\"}''" "''session''" now' now rnd] assms(3)
    by (auto simp: auth_channel)
qed

theorem session_events_reach_modules_witness:
  "length (spawned 6 (snd (Unlock 5 [] ''h'' (SetDispatcher True NewSessionContext)))
     (run bus_step (NewBus []) [OpRegister \<lparr>m_ID = ''audit'', m_Channels = [''auth''], m_Handle = (1 :: nat), m_Stop = Returned\<rparr>])) = 1"
proof -
  let ?ops = "[OpRegister \<lparr>m_ID = ''audit'', m_Channels = [''auth''], m_Handle = (1 :: nat), m_Stop = Returned\<rparr>]"
  let ?b = "run bus_step (NewBus (map WithGatedChannels [])) ?ops"
  have upper: "ToUpper ''auth'' = ''AUTH''"
    by code_simp
  have b: "\<not> gated ?b ''AUTH''" "expected (modules ?b) ''AUTH'' = [\<lparr>nh_id = ''audit'', nh_handler = 1\<rparr>]" "subscribersOf ?b EvAuthReady = []"
    by (simp_all add: gated_def gomap_index_def NewBus_def Register_def addHandler_def expected_def subscribersOf_def
        gomap_set_def upper Let_def)
  have "dispatcher (SetDispatcher True NewSessionContext)"
    by (simp add: SetDispatcher_def)
  from session_events_reach_modules [OF this b(1), of 5 6 "[]"] obtain e where
    "spawned 6 (snd (Unlock 5 [] ''h'' (SetDispatcher True NewSessionContext))) ?b =
      map (\<lambda>h. (nh_handler h, e)) (expected (modules ?b) ''AUTH'' @ subscribersOf ?b EvAuthReady)"
    by blast
  then show ?thesis
    unfolding b by (simp only: list.map append.simps list.size)
qed

end
